theory Spec2Isabelle
  imports Main "HOL-Library.Word"
begin

unbundle bit_operations_syntax

section \<open>The VHD disk driver of GRUB (grub-core/disk/vhd.c)\<close>

text \<open>
  A shallow embedding of \<^verbatim>\<open>grub-core/disk/vhd.c\<close>: the registry of virtual devices
  (\<^verbatim>\<open>vhd_list\<close>, \<^verbatim>\<open>last_id\<close>), the command that adds, replaces and deletes devices,
  and the operations of the disk backend that enumerate, read and write. The global variables of the C file and of
  the GRUB kernel it touches (\<^verbatim>\<open>grub_errno\<close>, the open files) are the fields of one
  state record, which every function takes and returns.

  Fixed by the model: the host is little-endian (the code swaps bytes unconditionally
  with \<^verbatim>\<open>grub_swap_bytes32\<close>), \<^verbatim>\<open>unsigned long\<close> is the type \<open>'l word\<close> for any
  width \<open>'l\<close>, and \<^verbatim>\<open>grub_size_t\<close> is \<open>'s word\<close> for any width \<open>'s\<close>;
  \<^verbatim>\<open>grub_uint32_t\<close>, \<^verbatim>\<open>grub_uint64_t\<close>, \<^verbatim>\<open>grub_disk_addr_t\<close> and
  \<^verbatim>\<open>grub_off_t\<close> are 32 and 64 bits wide.
\<close>

subsection \<open>Types\<close>

type_synonym byte = "8 word"

text \<open>The error codes of \<^verbatim>\<open>grub/err.h\<close> that this file or its callees set;
  \<^verbatim>\<open>GRUB_ERR_NONE\<close> is 0.\<close>

datatype grub_err_t =
    GRUB_ERR_NONE
  | GRUB_ERR_OUT_OF_MEMORY
  | GRUB_ERR_FILE_NOT_FOUND
  | GRUB_ERR_BAD_ARGUMENT
  | GRUB_ERR_BAD_DEVICE
  | GRUB_ERR_UNKNOWN_DEVICE
  | GRUB_ERR_NOT_IMPLEMENTED_YET
  | GRUB_ERR_OUT_OF_RANGE

text \<open>\<^verbatim>\<open>grub_file_t\<close> is a pointer to a file object; the model uses a number.\<close>

type_synonym grub_file_t = nat

text \<open>An open file: the bytes of the backing storage and the read cursor.\<close>

record grub_file =
  contents :: "byte list"
  offset :: "64 word"

text \<open>The calls the driver makes on the file layer, in the order it makes them.\<close>

datatype io_event =
    Seek grub_file_t "64 word"
  | Read grub_file_t nat
  | Close grub_file_t

text \<open>\<^verbatim>\<open>struct grub_vhd\<close>. The \<^verbatim>\<open>next\<close> pointer is the tail of the list that holds
  the record; \<open>'u\<close> stands for \<^verbatim>\<open>unsigned long\<close> and is a word type wherever it is
  computed with; the fields \<^verbatim>\<open>file\<close> and \<^verbatim>\<open>id\<close> are \<open>file_h\<close> and \<open>id_no\<close>.\<close>

record 'u grub_vhd =
  devname :: string
  file_h :: grub_file_t
  id_no :: 'u

text \<open>The globals: \<^verbatim>\<open>vhd_list\<close> (head first), \<^verbatim>\<open>last_id\<close>, \<^verbatim>\<open>grub_errno\<close>, the
  open files by handle, the next handle that \<^verbatim>\<open>grub_file_open\<close> hands out, the files
  that can be opened by path, and the log of file-layer calls.\<close>

record 'u state =
  vhd_list :: "'u grub_vhd list"
  last_id :: 'u
  grub_errno :: grub_err_t
  files :: "grub_file_t \<rightharpoonup> grub_file"
  next_file :: grub_file_t
  fs :: "string \<rightharpoonup> byte list"
  io_log :: "io_event list"

subsection \<open>The GRUB kernel functions the driver calls\<close>

text \<open>\<^verbatim>\<open>grub_error (n, msg)\<close> stores \<open>n\<close> in \<^verbatim>\<open>grub_errno\<close> and returns it.\<close>

definition grub_error :: "grub_err_t \<Rightarrow> 'u state \<Rightarrow> grub_err_t \<times> 'u state" where
  "grub_error n s = (n, s\<lparr>grub_errno := n\<rparr>)"

text \<open>Modelled from the spec: \<^verbatim>\<open>grub_file_close\<close> of the file layer (\<^verbatim>\<open>grub/file.h\<close>,
  not under src/), the \<open>close(handle)\<close> of section 6: the handle is no longer open.\<close>

definition grub_file_close :: "grub_file_t \<Rightarrow> 'u state \<Rightarrow> 'u state" where
  "grub_file_close h s = s\<lparr>files := (files s)(h := None), io_log := io_log s @ [Close h]\<rparr>"

text \<open>Modelled from the spec: \<^verbatim>\<open>grub_file_open\<close> of the file layer (not under src/),
  the \<open>open(pathSpecifier) -> FileHandle|Error\<close> of section 6. A path the file system
  does not have gives \<^verbatim>\<open>NULL\<close> (here \<open>None\<close>) with \<^verbatim>\<open>grub_errno\<close> set; otherwise a
  new file object is created, its cursor at 0.\<close>

definition grub_file_open :: "string \<Rightarrow> 'u state \<Rightarrow> grub_file_t option \<times> 'u state" where
  "grub_file_open path s =
     (case fs s path of
        None \<Rightarrow> (None, s\<lparr>grub_errno := GRUB_ERR_FILE_NOT_FOUND\<rparr>)
      | Some bs \<Rightarrow>
          (Some (next_file s),
           s\<lparr>files := (files s)(next_file s \<mapsto> \<lparr>contents = bs, offset = 0\<rparr>),
             next_file := Suc (next_file s)\<rparr>))"

text \<open>Modelled from the spec: \<^verbatim>\<open>grub_malloc\<close> and \<^verbatim>\<open>grub_strdup\<close> of the memory
  manager (\<^verbatim>\<open>grub/mm.h\<close>, \<^verbatim>\<open>grub/misc.h\<close>, not under src/). Whether an allocation
  succeeds is not decided by this file: it is the argument \<open>ok\<close>. A failed allocation
  returns \<^verbatim>\<open>NULL\<close> (here \<open>False\<close>) and leaves the error in \<^verbatim>\<open>grub_errno\<close>, which is
  what the \<^verbatim>\<open>fail:\<close> path of the command reads (section 7: allocating the record or
  duplicating the name may fail, and the error surfaces).\<close>

definition grub_malloc :: "bool \<Rightarrow> 'u state \<Rightarrow> bool \<times> 'u state" where
  "grub_malloc ok s = (if ok then (True, s) else (False, s\<lparr>grub_errno := GRUB_ERR_OUT_OF_MEMORY\<rparr>))"

definition grub_strdup :: "bool \<Rightarrow> 'u state \<Rightarrow> bool \<times> 'u state" where
  "grub_strdup ok s = grub_malloc ok s"

text \<open>Modelled from the spec: \<^verbatim>\<open>grub_file_seek\<close> of the file layer (not under src/),
  the \<open>seek(handle, absoluteByteOffset)\<close> of section 6. The cursor moves to any offset up
  to the end of the file; an offset beyond the end is an error left in \<^verbatim>\<open>grub_errno\<close>
  and the cursor stays. The result is \<open>None\<close> when the handle is not an open file (the
  C code would follow a dangling pointer). The driver ignores the value the C function
  returns.\<close>

definition grub_file_seek :: "grub_file_t \<Rightarrow> 64 word \<Rightarrow> 'u state \<Rightarrow> 'u state option" where
  "grub_file_seek h off s =
     (case files s h of
        None \<Rightarrow> None
      | Some f \<Rightarrow>
          Some (if length (contents f) < unat off
                then s\<lparr>grub_errno := GRUB_ERR_OUT_OF_RANGE, io_log := io_log s @ [Seek h off]\<rparr>
                else s\<lparr>files := (files s)(h \<mapsto> f\<lparr>offset := off\<rparr>),
                       io_log := io_log s @ [Seek h off]\<rparr>))"

text \<open>Modelled from the spec: \<^verbatim>\<open>grub_file_read\<close> of the file layer (not under src/),
  the \<open>read(handle, byteCount) -> bytes|Error\<close> of section 6. It copies into the buffer
  the bytes of the file from the cursor on, \<open>len\<close> of them or as many as the file has
  left, and advances the cursor by that number; the bytes of the buffer beyond them keep
  what they held. A cursor beyond the end is an error left in \<^verbatim>\<open>grub_errno\<close>. The
  result is the buffer and the state, or \<open>None\<close> when the handle is not an open file.
  The driver ignores the count the C function returns.\<close>

definition grub_file_read ::
  "grub_file_t \<Rightarrow> byte list \<Rightarrow> nat \<Rightarrow> 'u state \<Rightarrow> (byte list \<times> 'u state) option" where
  "grub_file_read h buf len s =
     (case files s h of
        None \<Rightarrow> None
      | Some f \<Rightarrow>
          Some (if length (contents f) < unat (offset f)
                then (buf, s\<lparr>grub_errno := GRUB_ERR_OUT_OF_RANGE,
                              io_log := io_log s @ [Read h len]\<rparr>)
                else (let bytes = take len (drop (unat (offset f)) (contents f))
                      in (bytes @ drop (length bytes) buf,
                          s\<lparr>files := (files s)(h \<mapsto> f\<lparr>offset := offset f + of_nat (length bytes)\<rparr>),
                            io_log := io_log s @ [Read h len]\<rparr>))))"

text \<open>Modelled from the spec: \<^verbatim>\<open>grub_divmod64\<close> (\<^verbatim>\<open>grub/misc.h\<close>, not under src/), the
  \<open>divmod\<close> of section 4.2, step 2: integer quotient and remainder of two unsigned 64-bit
  numbers. A zero divisor has neither: the model returns \<open>None\<close>.\<close>

definition grub_divmod64 :: "64 word \<Rightarrow> 64 word \<Rightarrow> (64 word \<times> 64 word) option" where
  "grub_divmod64 n d = (if d = 0 then None else Some (n div d, n mod d))"

text \<open>Modelled from the spec: the macros \<^verbatim>\<open>grub_swap_bytes32\<close> and
  \<^verbatim>\<open>grub_swap_bytes64\<close> of \<^verbatim>\<open>grub/types.h\<close> (not under src/): the bytes of the
  number in the opposite order, which on a little-endian host turns a big-endian field
  into its value (sections 3 and 4.1).\<close>

definition grub_swap_bytes32 :: "32 word \<Rightarrow> 32 word" where
  "grub_swap_bytes32 x =
     push_bit 24 x OR push_bit 8 (x AND 0xFF00) OR drop_bit 8 (x AND 0xFF0000) OR drop_bit 24 x"

definition grub_swap_bytes64 :: "64 word \<Rightarrow> 64 word" where
  "grub_swap_bytes64 x =
     push_bit 56 x OR push_bit 40 (x AND 0xFF00) OR push_bit 24 (x AND 0xFF0000)
     OR push_bit 8 (x AND 0xFF000000) OR drop_bit 8 (x AND 0xFF00000000)
     OR drop_bit 24 (x AND 0xFF0000000000) OR drop_bit 40 (x AND 0xFF000000000000)
     OR drop_bit 56 x"

text \<open>Modelled from the spec: the macro \<^verbatim>\<open>GRUB_DISK_SECTOR_BITS\<close> of \<^verbatim>\<open>grub/disk.h\<close>
  (not under src/); sectors have 512 bytes (section 4.2, step 5: \<open>requestedSectorCount << 9\<close>).\<close>

definition GRUB_DISK_SECTOR_BITS :: nat where
  "GRUB_DISK_SECTOR_BITS = 9"

subsection \<open>Deleting a device\<close>

text \<open>The search loop of \<^verbatim>\<open>delete_vhd\<close> with the unlinking \<^verbatim>\<open>*prev = dev->next\<close>:
  the first record named \<open>name\<close> and the list without it, or nothing.\<close>

fun unlink :: "string \<Rightarrow> 'u grub_vhd list \<Rightarrow> ('u grub_vhd \<times> 'u grub_vhd list) option" where
  "unlink name [] = None"
| "unlink name (dev # rest) =
     (if devname dev = name then Some (dev, rest)
      else (case unlink name rest of
              None \<Rightarrow> None
            | Some (d, rest') \<Rightarrow> Some (d, dev # rest')))"

definition delete_vhd :: "string \<Rightarrow> 'u state \<Rightarrow> grub_err_t \<times> 'u state" where
  "delete_vhd name s =
     (case unlink name (vhd_list s) of
        None \<Rightarrow> grub_error GRUB_ERR_BAD_DEVICE s
      | Some (dev, rest) \<Rightarrow>
          (GRUB_ERR_NONE, grub_file_close (file_h dev) (s\<lparr>vhd_list := rest\<rparr>)))"

subsection \<open>Adding or replacing a device\<close>

text \<open>The search loop \<^verbatim>\<open>for (dev = vhd_list; dev; dev = dev->next)\<close> that stops at the
  first record named \<open>name\<close>; \<open>None\<close> is the null pointer the loop ends with.\<close>

fun find_dev :: "string \<Rightarrow> 'u grub_vhd list \<Rightarrow> 'u grub_vhd option" where
  "find_dev name [] = None"
| "find_dev name (dev # rest) = (if devname dev = name then Some dev else find_dev name rest)"

text \<open>The assignment \<^verbatim>\<open>newdev->file = file\<close> through the pointer that the search loop
  found: the first record named \<open>name\<close> is updated where it is.\<close>

fun assign_file :: "string \<Rightarrow> grub_file_t \<Rightarrow> 'u grub_vhd list \<Rightarrow> 'u grub_vhd list" where
  "assign_file name f [] = []"
| "assign_file name f (dev # rest) =
     (if devname dev = name then dev\<lparr>file_h := f\<rparr> # rest else dev # assign_file name f rest)"

text \<open>\<^verbatim>\<open>grub_cmd_vhd\<close>. \<open>state_set\<close> is \<^verbatim>\<open>state[0].set\<close> (the option \<^verbatim>\<open>-d\<close>), \<open>args\<close> the
  argument vector with \<^verbatim>\<open>argc\<close> its length, \<open>malloc_ok\<close> and \<open>strdup_ok\<close> say whether
  the two allocations of this call succeed.\<close>

definition grub_cmd_vhd ::
  "bool \<Rightarrow> string list \<Rightarrow> bool \<Rightarrow> bool \<Rightarrow> 'l::len word state \<Rightarrow> grub_err_t \<times> 'l word state" where
  "grub_cmd_vhd state_set args malloc_ok strdup_ok s =
     (if length args < 1 then grub_error GRUB_ERR_BAD_ARGUMENT s
      else if state_set then delete_vhd (args ! 0) s
      else if length args < 2 then grub_error GRUB_ERR_BAD_ARGUMENT s
      else
        (case grub_file_open (args ! 1) s of
           (None, s1) \<Rightarrow> (grub_errno s1, s1)
         | (Some f, s1) \<Rightarrow>
             (case find_dev (args ! 0) (vhd_list s1) of
                Some newdev \<Rightarrow>
                  (let s2 = grub_file_close (file_h newdev) s1
                   in (GRUB_ERR_NONE, s2\<lparr>vhd_list := assign_file (args ! 0) f (vhd_list s2)\<rparr>))
              | None \<Rightarrow>
                  (case grub_malloc malloc_ok s1 of
                     (False, s2) \<Rightarrow> (grub_errno s2, grub_file_close f s2)
                   | (True, s2) \<Rightarrow>
                       (case grub_strdup strdup_ok s2 of
                          (False, s3) \<Rightarrow> (grub_errno s3, grub_file_close f s3)
                        | (True, s3) \<Rightarrow>
                            (GRUB_ERR_NONE,
                             s3\<lparr>vhd_list :=
                                  \<lparr>devname = args ! 0, file_h = f, id_no = last_id s3\<rparr> # vhd_list s3,
                                last_id := last_id s3 + 1\<rparr>))))))"

subsection \<open>The disk backend\<close>

text \<open>\<^verbatim>\<open>grub_disk_pull_t\<close> of \<^verbatim>\<open>grub/disk.h\<close>.\<close>

datatype grub_disk_pull_t =
    GRUB_DISK_PULL_NONE
  | GRUB_DISK_PULL_REMOVABLE
  | GRUB_DISK_PULL_RESCAN
  | GRUB_DISK_PULL_MAX

text \<open>The loop of \<^verbatim>\<open>grub_vhd_iterate\<close>. The hook is a C function of the device name
  and of \<^verbatim>\<open>hook_data\<close>; here it returns its \<^verbatim>\<open>int\<close> and what it left in
  \<^verbatim>\<open>hook_data\<close>.\<close>

fun iterate_loop :: "(string \<Rightarrow> 'h \<Rightarrow> int \<times> 'h) \<Rightarrow> 'u grub_vhd list \<Rightarrow> 'h \<Rightarrow> int \<times> 'h" where
  "iterate_loop hook [] hook_data = (0, hook_data)"
| "iterate_loop hook (d # rest) hook_data =
     (case hook (devname d) hook_data of
        (r, hook_data') \<Rightarrow>
          if r \<noteq> 0 then (1, hook_data') else iterate_loop hook rest hook_data')"

definition grub_vhd_iterate ::
  "(string \<Rightarrow> 'h \<Rightarrow> int \<times> 'h) \<Rightarrow> 'h \<Rightarrow> grub_disk_pull_t \<Rightarrow> 'u state \<Rightarrow> int \<times> 'h" where
  "grub_vhd_iterate hook hook_data pull s =
     (if pull \<noteq> GRUB_DISK_PULL_NONE then (0, hook_data)
      else iterate_loop hook (vhd_list s) hook_data)"

text \<open>\<^verbatim>\<open>grub_vhd_write\<close> ignores its four arguments.\<close>

definition grub_vhd_write ::
  "'d \<Rightarrow> 64 word \<Rightarrow> 's::len word \<Rightarrow> byte list \<Rightarrow> 'u state \<Rightarrow> grub_err_t \<times> 'u state" where
  "grub_vhd_write disk sector size' buf s = grub_error GRUB_ERR_NOT_IMPLEMENTED_YET s"

subsection \<open>Reading\<close>

text \<open>The value of an integer variable whose bytes in memory are \<open>bs\<close>, lowest address
  first, on the little-endian host.\<close>

fun load_le :: "byte list \<Rightarrow> 'a::len word" where
  "load_le [] = 0"
| "load_le (b # bs) = ucast b OR push_bit 8 (load_le bs)"

text \<open>\<^verbatim>\<open>struct vhddynheader\<close>, and the struct that lies over 1024 bytes of memory: every
  member at its offset (the members are naturally aligned, there is no padding).\<close>

record vhddynheader =
  cookie :: "byte list"
  dataoffset :: "64 word"
  BAT :: "64 word"
  headerversion :: "32 word"
  maxentries :: "32 word"
  blocsize :: "32 word"
  checksum :: "32 word"
  parentUID :: "byte list"
  timestamp :: "32 word"
  reserved1 :: "32 word"
  parentuincodename :: "byte list"
  parentlocatorentry1 :: "byte list"
  parentlocatorentry2 :: "byte list"
  parentlocatorentry3 :: "byte list"
  parentlocatorentry4 :: "byte list"
  parentlocatorentry5 :: "byte list"
  parentlocatorentry6 :: "byte list"
  parentlocatorentry7 :: "byte list"
  parentlocatorentry8 :: "byte list"
  reserved2 :: "byte list"

definition bytes_at :: "byte list \<Rightarrow> nat \<Rightarrow> nat \<Rightarrow> byte list" where
  "bytes_at mem at n = take n (drop at mem)"

definition as_vhddynheader :: "byte list \<Rightarrow> vhddynheader" where
  "as_vhddynheader mem =
     \<lparr>cookie = bytes_at mem 0 8,
      dataoffset = load_le (bytes_at mem 8 8),
      BAT = load_le (bytes_at mem 16 8),
      headerversion = load_le (bytes_at mem 24 4),
      maxentries = load_le (bytes_at mem 28 4),
      blocsize = load_le (bytes_at mem 32 4),
      checksum = load_le (bytes_at mem 36 4),
      parentUID = bytes_at mem 40 16,
      timestamp = load_le (bytes_at mem 56 4),
      reserved1 = load_le (bytes_at mem 60 4),
      parentuincodename = bytes_at mem 64 512,
      parentlocatorentry1 = bytes_at mem 576 24,
      parentlocatorentry2 = bytes_at mem 600 24,
      parentlocatorentry3 = bytes_at mem 624 24,
      parentlocatorentry4 = bytes_at mem 648 24,
      parentlocatorentry5 = bytes_at mem 672 24,
      parentlocatorentry6 = bytes_at mem 696 24,
      parentlocatorentry7 = bytes_at mem 720 24,
      parentlocatorentry8 = bytes_at mem 744 24,
      reserved2 = bytes_at mem 768 256\<rparr>"

text \<open>The members of \<^verbatim>\<open>struct grub_disk\<close> that the driver uses. \<^verbatim>\<open>data\<close> points to
  the record of the device in the registry; a disk given to \<^verbatim>\<open>grub_vhd_read\<close> holds
  the record that the pointer leads to at the time of that call.\<close>

record 'u grub_disk =
  max_agglomerate :: nat
  total_sectors :: "64 word"
  disk_id :: 'u
  data :: "'u grub_vhd"

text \<open>What can stop \<^verbatim>\<open>grub_vhd_read\<close> before it returns: a file pointer that is not an
  open file, and the division by a density of 0.\<close>

datatype fault = Invalid_File | Division_By_Zero

text \<open>\<^verbatim>\<open>grub_vhd_read\<close>. \<open>dynheader\<close> and \<open>blocpos\<close> are the bytes that the two
  uninitialised local variables hold when the function is entered (1024 and 4 bytes), \<open>buf\<close>
  the bytes of the caller's buffer; the result has the return value, the buffer and the
  state. The sum \<^verbatim>\<open>grub_swap_bytes32 (blocpos) + 1\<close> is computed in 32 bits before it is
  added to the 64-bit \<^verbatim>\<open>offsetbloc\<close>; the length of the last read is converted to
  \<^verbatim>\<open>grub_size_t\<close>.\<close>

definition grub_vhd_read ::
  "'u grub_disk \<Rightarrow> 64 word \<Rightarrow> 's::len word \<Rightarrow> byte list \<Rightarrow> byte list \<Rightarrow> byte list \<Rightarrow> 'u state
   \<Rightarrow> fault + (grub_err_t \<times> byte list \<times> 'u state)" where
  "grub_vhd_read disk sector size' buf dynheader blocpos s =
     (let file = file_h (data disk) in
      (case grub_file_seek file 512 s of
         None \<Rightarrow> Inl Invalid_File
       | Some s1 \<Rightarrow>
      (case grub_file_read file dynheader 1024 s1 of
         None \<Rightarrow> Inl Invalid_File
       | Some (dynheader', s2) \<Rightarrow>
      (let density = drop_bit 9 (grub_swap_bytes32 (blocsize (as_vhddynheader dynheader'))) in
      (case grub_divmod64 sector (ucast density) of
         None \<Rightarrow> Inl Division_By_Zero
       | Some (nb_bloc, offsetbloc) \<Rightarrow>
      (case grub_file_seek file
              (grub_swap_bytes64 (BAT (as_vhddynheader dynheader')) + push_bit 2 nb_bloc) s2 of
         None \<Rightarrow> Inl Invalid_File
       | Some s3 \<Rightarrow>
      (case grub_file_read file blocpos 4 s3 of
         None \<Rightarrow> Inl Invalid_File
       | Some (blocpos', s4) \<Rightarrow>
      (let finalpos =
             push_bit 9 (ucast (grub_swap_bytes32 (load_le (bytes_at blocpos' 0 4)) + 1) + offsetbloc) in
      (case grub_file_seek file finalpos s4 of
         None \<Rightarrow> Inl Invalid_File
       | Some s5 \<Rightarrow>
      (case grub_file_read file buf
              (unat (ucast (push_bit GRUB_DISK_SECTOR_BITS (ucast size' :: 64 word)) :: 's word)) s5 of
         None \<Rightarrow> Inl Invalid_File
       | Some (buf', s6) \<Rightarrow>
           Inr (if grub_errno s6 \<noteq> GRUB_ERR_NONE then grub_errno s6 else GRUB_ERR_NONE,
                buf', s6)))))))))))"

text \<open>A seek followed by a read, which is what \<^verbatim>\<open>grub_vhd_read\<close> does three times: for
  the header, for the entry of the block allocation table and for the data.\<close>

definition seek_read ::
  "grub_file_t \<Rightarrow> 64 word \<Rightarrow> byte list \<Rightarrow> nat \<Rightarrow> 'u state \<Rightarrow> (byte list \<times> 'u state) option" where
  "seek_read h off buf len s =
     (case grub_file_seek h off s of None \<Rightarrow> None | Some s1 \<Rightarrow> grub_file_read h buf len s1)"

text \<open>The number that the bytes \<open>bs\<close> are in big-endian order, the first byte the most
  significant.\<close>

fun big_endian :: "byte list \<Rightarrow> nat" where
  "big_endian [] = 0"
| "big_endian (b # bs) = unat b * 256 ^ length bs + big_endian bs"

text \<open>The quantities of the translation: the sectors per block that a header buffer
  gives, the offset of the entry of the block allocation table for a sector, the offset
  of the data as \<^verbatim>\<open>finalpos\<close> computes it from the four bytes of the entry, and the
  number of bytes asked for by the last read.\<close>

definition density_of :: "byte list \<Rightarrow> nat" where
  "density_of hdr = unat (grub_swap_bytes32 (blocsize (as_vhddynheader hdr))) div 512"

definition bat_entry_at :: "byte list \<Rightarrow> 64 word \<Rightarrow> 64 word" where
  "bat_entry_at hdr sector =
     of_nat (unat (grub_swap_bytes64 (BAT (as_vhddynheader hdr)))
             + (unat sector div density_of hdr) * 4)"

definition data_at :: "byte list \<Rightarrow> byte list \<Rightarrow> 64 word \<Rightarrow> 64 word" where
  "data_at hdr entry sector =
     push_bit 9 (ucast (grub_swap_bytes32 (load_le (bytes_at entry 0 4)) + 1)
                 + of_nat (unat sector mod density_of hdr))"

definition byte_count :: "'s::len word \<Rightarrow> nat" where
  "byte_count size' = unat size' * 512 mod 2 ^ 64 mod 2 ^ LENGTH('s)"

text \<open>What a caller sees of a read: the fault, or the return value, the buffer and the
  calls made on the file layer.\<close>

definition outcome ::
  "fault + (grub_err_t \<times> byte list \<times> 'u state) \<Rightarrow> fault + (grub_err_t \<times> byte list \<times> io_event list)" where
  "outcome r = map_sum id (\<lambda>(e, b, s). (e, b, io_log s)) r"

subsection \<open>Sequences of commands\<close>

text \<open>The state when the module is loaded: \<^verbatim>\<open>vhd_list\<close> is null and \<^verbatim>\<open>last_id\<close> is 0
  (their static initialisers), no file is open; \<open>disk_files\<close> are the files that can be
  opened.\<close>

definition initial :: "(string \<rightharpoonup> byte list) \<Rightarrow> 'l::len word state" where
  "initial disk_files =
     \<lparr>vhd_list = [], last_id = 0, grub_errno = GRUB_ERR_NONE, files = Map.empty,
      next_file = 0, fs = disk_files, io_log = []\<rparr>"

text \<open>One invocation of the command: \<^verbatim>\<open>vhd NAME FILE\<close> (with the outcome of its two
  allocations) or \<^verbatim>\<open>vhd -d NAME\<close>.\<close>

datatype vhd_cmd = Add string string bool bool | Delete string

fun exec :: "vhd_cmd \<Rightarrow> 'l::len word state \<Rightarrow> grub_err_t \<times> 'l word state" where
  "exec (Add name path malloc_ok strdup_ok) s = grub_cmd_vhd False [name, path] malloc_ok strdup_ok s"
| "exec (Delete name) s = grub_cmd_vhd True [name] True True s"

fun run :: "vhd_cmd list \<Rightarrow> 'l::len word state \<Rightarrow> 'l word state" where
  "run [] s = s"
| "run (c # cs) s = run cs (snd (exec c s))"

text \<open>An invocation creates a device when it is a successful add of a name that is not
  registered. \<open>created_ids\<close> lists, in the order of the invocations, the identity that
  each creation gave to its new record (the head of the list after the call).\<close>

fun creates :: "vhd_cmd \<Rightarrow> 'l::len word state \<Rightarrow> bool" where
  "creates (Add name path malloc_ok strdup_ok) s \<longleftrightarrow>
     find_dev name (vhd_list s) = None
     \<and> fst (exec (Add name path malloc_ok strdup_ok) s) = GRUB_ERR_NONE"
| "creates (Delete name) s \<longleftrightarrow> False"

fun created_ids :: "vhd_cmd list \<Rightarrow> 'l::len word state \<Rightarrow> 'l word list" where
  "created_ids [] s = []"
| "created_ids (c # cs) s =
     (if creates c s then [id_no (hd (vhd_list (snd (exec c s))))] else [])
     @ created_ids cs (snd (exec c s))"

text \<open>What the registry keeps true: names are unique, every record owns its backing file
  alone, and that file is open (its handle is one that \<^verbatim>\<open>grub_file_open\<close> has given
  out).\<close>

definition registry_ok :: "'u state \<Rightarrow> bool" where
  "registry_ok s \<longleftrightarrow>
     distinct (map devname (vhd_list s)) \<and>
     distinct (map file_h (vhd_list s)) \<and>
     (\<forall>d \<in> set (vhd_list s). file_h d < next_file s \<and> files s (file_h d) \<noteq> None)"

subsection \<open>Concrete states and inputs\<close>

text \<open>A registry with the one device \<open>a\<close>, its backing file of two sectors open, and a
  second file that can be opened.\<close>

definition one_device :: "'l::len word state" where
  "one_device =
     \<lparr>vhd_list = [\<lparr>devname = ''a'', file_h = 0, id_no = 0\<rparr>],
      last_id = 1,
      grub_errno = GRUB_ERR_NONE,
      files = [0 \<mapsto> \<lparr>contents = replicate 1024 0, offset = 0\<rparr>],
      next_file = 1,
      fs = [''new.vhd'' \<mapsto> [1, 2, 3]],
      io_log = []\<rparr>"

text \<open>A small dynamic disk image: the footer, the header with the table at offset
  \<open>0x600\<close> and the block size \<open>bsize\<close>, a table of two entries, and one block of two
  sectors behind its bitmap sector. With it, a registry whose device \<open>a\<close> has the image
  open, and a disk whose \<^verbatim>\<open>data\<close> leads to the record of \<open>a\<close>.\<close>

definition header_bytes :: "byte list \<Rightarrow> byte list \<Rightarrow> byte list" where
  "header_bytes bat bsize =
     [0x63, 0x78, 0x73, 0x70, 0x61, 0x72, 0x73, 0x65] @ replicate 8 0xFF @ bat
     @ [0, 1, 0, 0] @ [0, 0, 0, 2] @ bsize @ replicate 988 0"

definition image :: "byte list \<Rightarrow> byte list \<Rightarrow> byte list" where
  "image bsize entries =
     replicate 512 0 @ header_bytes [0, 0, 0, 0, 0, 0, 6, 0] bsize
     @ entries @ replicate 504 0
     @ replicate 512 0xFF @ replicate 512 0xAA @ replicate 512 0xBB"

definition small_image :: "byte list" where
  "small_image = image [0, 0, 4, 0] [0, 0, 0, 4, 0xFF, 0xFF, 0xFF, 0xFF]"

text \<open>The same header with a block size of 256 bytes, and a file that ends one byte before
  the end of its header, whose table offset is 0.\<close>

definition bad_image :: "byte list" where
  "bad_image = image [0, 0, 1, 0] [0, 0, 0, 4, 0xFF, 0xFF, 0xFF, 0xFF]"

definition short_image :: "byte list" where
  "short_image = replicate 512 0 @ take 1023 (header_bytes [0, 0, 0, 0, 0, 0, 0, 0] [0, 0, 4, 0])"

text \<open>The image with a block size of 8192 bytes, 16 sectors, whose first table entry is
  \<open>0xFFFFFFFF\<close>; the file is shorter than one block.\<close>

definition far_image :: "byte list" where
  "far_image = image [0, 0, 0x20, 0] [0xFF, 0xFF, 0xFF, 0xFF, 0, 0, 0, 4]"

definition device_on :: "byte list \<Rightarrow> 'l::len word state" where
  "device_on bytes =
     \<lparr>vhd_list = [\<lparr>devname = ''a'', file_h = 0, id_no = 0\<rparr>],
      last_id = 1,
      grub_errno = GRUB_ERR_NONE,
      files = [0 \<mapsto> \<lparr>contents = bytes, offset = 0\<rparr>],
      next_file = 1,
      fs = Map.empty,
      io_log = []\<rparr>"

definition disk_a :: "'l::len word grub_disk" where
  "disk_a = \<lparr>max_agglomerate = 2 ^ 14, total_sectors = - 1, disk_id = 0,
             data = \<lparr>devname = ''a'', file_h = 0, id_no = 0\<rparr>\<rparr>"

text \<open>A file system with three images, for adding the devices \<open>a\<close>, \<open>b\<close> and \<open>c\<close>.\<close>

definition three_files :: "string \<rightharpoonup> byte list" where
  "three_files = [''fa'' \<mapsto> [1], ''fb'' \<mapsto> [2], ''fc'' \<mapsto> [3]]"

text \<open>Adding and deleting the device \<open>a\<close>, and the number of times it takes a 32-bit
  \<^verbatim>\<open>unsigned long\<close> to come back to 0.\<close>

definition add_delete :: "vhd_cmd list" where
  "add_delete = [Add ''a'' ''f'' True True, Delete ''a'']"

definition wrap_count :: nat where
  "wrap_count = 2 ^ 32"

section \<open>Properties\<close>

subsection \<open>The search loops\<close>

lemma unlink_None: "unlink name ds = None \<longleftrightarrow> name \<notin> devname ` set ds"
  by (induction ds) (auto split: option.splits)

lemma unlink_Some:
  "unlink name ds = Some (d, rest) \<Longrightarrow>
   \<exists>xs ys. ds = xs @ d # ys \<and> rest = xs @ ys \<and> devname d = name \<and> name \<notin> devname ` set xs"
proof (induction ds arbitrary: rest)
  case Nil
  then show ?case by simp
next
  case (Cons a ds)
  show ?case
  proof (cases "devname a = name")
    case True
    with Cons.prems have "a # ds = [] @ d # rest \<and> rest = [] @ rest \<and> devname d = name" by auto
    then show ?thesis by (metis empty_iff image_empty list.set(1))
  next
    case False
    with Cons.prems obtain rest' where u: "unlink name ds = Some (d, rest')" and r: "rest = a # rest'"
      by (auto split: option.splits)
    from Cons.IH [OF u] obtain xs ys where
      "ds = xs @ d # ys" "rest' = xs @ ys" "devname d = name" "name \<notin> devname ` set xs"
      by blast
    with False r have "a # ds = (a # xs) @ d # ys \<and> rest = (a # xs) @ ys \<and> devname d = name
        \<and> name \<notin> devname ` set (a # xs)"
      by auto
    then show ?thesis by blast
  qed
qed

lemma find_dev_None: "find_dev name ds = None \<longleftrightarrow> name \<notin> devname ` set ds"
  by (induction ds) auto

lemma find_dev_Some: "find_dev name ds = Some d \<Longrightarrow> d \<in> set ds \<and> devname d = name"
  by (induction ds) (auto split: if_splits)

lemma assign_file_map:
  "distinct (map devname ds) \<Longrightarrow>
   assign_file name f ds = map (\<lambda>e. if devname e = name then e\<lparr>file_h := f\<rparr> else e) ds"
proof (induction ds)
  case Nil
  then show ?case by simp
next
  case (Cons d ds)
  have "map (\<lambda>e. if devname e = name then e\<lparr>file_h := f\<rparr> else e) ds = ds"
    if "devname d = name"
  proof (rule map_idI)
    fix x assume "x \<in> set ds"
    with Cons.prems that have "devname x \<noteq> name" by (metis distinct.simps(2) imageI list.simps(9) set_map)
    then show "(if devname x = name then x\<lparr>file_h := f\<rparr> else x) = x" by simp
  qed
  with Cons show ?case by auto
qed

lemma assign_file_names: "map devname (assign_file name f ds) = map devname ds"
  by (induction ds) auto

lemma find_dev_assign_file:
  "find_dev name ds = Some old \<Longrightarrow>
   find_dev name (assign_file name f ds) = Some (old\<lparr>file_h := f\<rparr>)"
  by (induction ds) (auto split: if_splits)

lemma one_named:
  "distinct (map devname ds) \<Longrightarrow> name \<in> devname ` set ds \<Longrightarrow>
   length (filter (\<lambda>e. devname e = name) ds) = 1"
proof (induction ds)
  case Nil
  then show ?case by simp
next
  case (Cons d ds)
  show ?case
  proof (cases "devname d = name")
    case True
    with Cons.prems have "\<forall>x \<in> set ds. devname x \<noteq> name"
      by (metis distinct.simps(2) imageI list.simps(9) set_map)
    then have "filter (\<lambda>e. devname e = name) ds = []"
      by (simp add: filter_empty_conv)
    with True show ?thesis by simp
  next
    case False
    with Cons show ?thesis by auto
  qed
qed

lemma find_dev_split:
  "find_dev name ds = Some old \<Longrightarrow>
   \<exists>xs ys. ds = xs @ old # ys \<and> assign_file name f ds = xs @ old\<lparr>file_h := f\<rparr> # ys"
proof (induction ds)
  case Nil
  then show ?case by simp
next
  case (Cons a ds)
  show ?case
  proof (cases "devname a = name")
    case True
    with Cons.prems have "a # ds = [] @ old # ds
        \<and> assign_file name f (a # ds) = [] @ old\<lparr>file_h := f\<rparr> # ds"
      by simp
    then show ?thesis by blast
  next
    case False
    with Cons obtain xs ys where
      "ds = xs @ old # ys" "assign_file name f ds = xs @ old\<lparr>file_h := f\<rparr> # ys"
      by auto
    with False have "a # ds = (a # xs) @ old # ys
        \<and> assign_file name f (a # ds) = (a # xs) @ old\<lparr>file_h := f\<rparr> # ys"
      by simp
    then show ?thesis by blast
  qed
qed

lemma grub_file_close_fields:
  "vhd_list (grub_file_close h s) = vhd_list s"
  "last_id (grub_file_close h s) = last_id s"
  "grub_errno (grub_file_close h s) = grub_errno s"
  "next_file (grub_file_close h s) = next_file s"
  "fs (grub_file_close h s) = fs s"
  "files (grub_file_close h s) = (files s)(h := None)"
  "io_log (grub_file_close h s) = io_log s @ [Close h]"
  by (simp_all add: grub_file_close_def)

subsection \<open>The invariant of the registry\<close>

lemma registry_ok_initial: "registry_ok (initial disk_files)"
  by (simp add: registry_ok_def initial_def)

lemma registry_ok_delete:
  assumes "registry_ok s"
  shows "registry_ok (snd (delete_vhd name s))"
proof (cases "unlink name (vhd_list s)")
  case None
  with assms show ?thesis
    by (simp add: delete_vhd_def grub_error_def registry_ok_def)
next
  case (Some p)
  obtain d rest where p: "p = (d, rest)" by (cases p)
  from unlink_Some [OF Some [unfolded p]] obtain xs ys where
    l: "vhd_list s = xs @ d # ys" "rest = xs @ ys" by blast
  with assms Some p show ?thesis
    by (auto simp: delete_vhd_def grub_file_close_def registry_ok_def) (metis imageI)+
qed

lemma registry_ok_replace:
  assumes ok: "registry_ok s" and found: "find_dev name (vhd_list s) = Some old"
  shows "registry_ok
           ((grub_file_close (file_h old)
              (s\<lparr>files := (files s)(next_file s \<mapsto> fobj), next_file := Suc (next_file s)\<rparr>))
            \<lparr>vhd_list := assign_file name (next_file s) (vhd_list s)\<rparr>)"
proof -
  from find_dev_split [OF found, of "next_file s"] obtain xs ys where
    l: "vhd_list s = xs @ old # ys"
       "assign_file name (next_file s) (vhd_list s) = xs @ old\<lparr>file_h := next_file s\<rparr> # ys"
    by blast
  let ?s' = "(grub_file_close (file_h old)
              (s\<lparr>files := (files s)(next_file s \<mapsto> fobj), next_file := Suc (next_file s)\<rparr>))
            \<lparr>vhd_list := assign_file name (next_file s) (vhd_list s)\<rparr>"
  have v: "vhd_list ?s' = xs @ old\<lparr>file_h := next_file s\<rparr> # ys"
    by (simp add: l(2))
  have f: "files ?s' = (files s)(next_file s \<mapsto> fobj, file_h old := None)"
    and n: "next_file ?s' = Suc (next_file s)"
    by (simp_all add: grub_file_close_def)
  from ok have dn: "distinct (map devname (xs @ old # ys))"
    and df: "distinct (map file_h (xs @ old # ys))"
    and op: "\<forall>d \<in> set (xs @ old # ys). file_h d < next_file s \<and> files s (file_h d) \<noteq> None"
    unfolding registry_ok_def l(1) by blast+
  from op have fresh: "next_file s \<notin> file_h ` (set xs \<union> set ys)"
    by auto
  from df have others: "file_h old \<notin> file_h ` (set xs \<union> set ys)"
    by auto
  have nf: "\<forall>d \<in> set xs \<union> set ys. file_h d \<noteq> file_h old \<and> file_h d \<noteq> next_file s"
    using fresh others by (metis imageI)
  have "distinct (map devname (vhd_list ?s'))"
    using dn unfolding v by simp
  moreover have "distinct (map file_h (vhd_list ?s'))"
    using df fresh unfolding v by (simp add: image_Un)
  moreover have "\<forall>d \<in> set (vhd_list ?s'). file_h d < next_file ?s' \<and> files ?s' (file_h d) \<noteq> None"
    using op nf unfolding v f n by (auto simp: less_Suc_eq)
  ultimately show ?thesis
    unfolding registry_ok_def by blast
qed

lemma registry_ok_cmd:
  assumes ok: "registry_ok s"
  shows "registry_ok (snd (grub_cmd_vhd state_set args malloc_ok strdup_ok s))"
proof -
  have err: "registry_ok (s\<lparr>grub_errno := e\<rparr>)" for e
    using ok by (simp add: registry_ok_def)
  have closed: "registry_ok (grub_file_close (next_file s)
      (s\<lparr>files := (files s)(next_file s \<mapsto> fobj), next_file := Suc (next_file s),
         grub_errno := e\<rparr>))" for fobj e
    using ok by (auto simp: registry_ok_def grub_file_close_def less_Suc_eq)
  have fresh: "next_file s \<notin> file_h ` set (vhd_list s)"
    using ok by (auto simp: registry_ok_def)
  have created: "registry_ok
      (s\<lparr>files := (files s)(next_file s \<mapsto> fobj), next_file := Suc (next_file s),
         vhd_list := \<lparr>devname = name, file_h = next_file s, id_no = i\<rparr> # vhd_list s,
         last_id := j\<rparr>)"
    if "find_dev name (vhd_list s) = None" for fobj name i j
    using ok that fresh by (auto simp: registry_ok_def find_dev_None less_Suc_eq)
  show ?thesis
    using err closed created registry_ok_delete [OF ok] registry_ok_replace [OF ok]
    by (auto simp: grub_cmd_vhd_def grub_error_def grub_file_open_def grub_malloc_def grub_strdup_def Let_def
        grub_file_close_fields(1) split: option.splits)
qed

lemma registry_ok_run: "registry_ok s \<Longrightarrow> registry_ok (run cs s)"
proof (induction cs arbitrary: s)
  case Nil
  then show ?case by simp
next
  case (Cons c cs)
  have "registry_ok (snd (exec c s))"
    using Cons.prems by (cases c) (simp_all add: registry_ok_cmd)
  then show ?case by (simp add: Cons.IH)
qed

subsection \<open>Identities along a sequence of commands\<close>

lemma create_step:
  assumes "find_dev name (vhd_list s) = None"
    and "fst (grub_cmd_vhd False (name # path # rest) malloc_ok strdup_ok s) = GRUB_ERR_NONE"
  shows "vhd_list (snd (grub_cmd_vhd False (name # path # rest) malloc_ok strdup_ok s))
           = \<lparr>devname = name, file_h = next_file s, id_no = last_id s\<rparr> # vhd_list s
       \<and> last_id (snd (grub_cmd_vhd False (name # path # rest) malloc_ok strdup_ok s)) = last_id s + 1"
  using assms
  by (auto simp: grub_cmd_vhd_def grub_file_open_def grub_malloc_def grub_strdup_def Let_def
      grub_file_close_fields split: option.splits if_splits)

lemma exec_create:
  assumes "creates c s"
  shows "id_no (hd (vhd_list (snd (exec c s)))) = last_id s
       \<and> last_id (snd (exec c s)) = last_id s + 1"
proof (cases c)
  case (Add name path malloc_ok strdup_ok)
  with assms create_step [of name s path "[]" malloc_ok strdup_ok] show ?thesis by simp
next
  case (Delete name)
  with assms show ?thesis by simp
qed

lemma last_id_delete: "last_id (snd (delete_vhd name s)) = last_id s"
  by (simp add: delete_vhd_def grub_error_def grub_file_close_fields split: option.splits prod.splits)

lemma exec_no_create:
  assumes "\<not> creates c s"
  shows "last_id (snd (exec c s)) = last_id s"
proof (cases c)
  case (Add name path malloc_ok strdup_ok)
  with assms show ?thesis
    by (auto simp: grub_cmd_vhd_def grub_file_open_def grub_malloc_def grub_strdup_def Let_def
        grub_file_close_fields split: option.splits if_splits)
next
  case (Delete name)
  then show ?thesis by (simp add: grub_cmd_vhd_def last_id_delete)
qed

lemma created_ids_from:
  "created_ids cs s = map (\<lambda>k. last_id s + of_nat k) [0..<length (created_ids cs s)]
   \<and> last_id (run cs s) = last_id s + of_nat (length (created_ids cs s))"
proof (induction cs arbitrary: s)
  case Nil
  then show ?case by simp
next
  case (Cons c cs)
  let ?s' = "snd (exec c s)"
  let ?n = "length (created_ids cs ?s')"
  note IH = Cons.IH [of ?s']
  show ?case
  proof (cases "creates c s")
    case True
    from exec_create [OF True] have i: "id_no (hd (vhd_list ?s')) = last_id s"
      and l: "last_id ?s' = last_id s + 1" by simp_all
    have "map (\<lambda>k. last_id s + of_nat k) [0..<Suc ?n]
        = last_id s # map (\<lambda>k. last_id s + 1 + of_nat k) [0..<?n]"
      by (simp add: upt_rec [of 0] map_Suc_upt [symmetric] del: upt_Suc)
    with True IH i l show ?thesis
      by (simp add: add.assoc add.commute)
  next
    case False
    from exec_no_create [OF False] IH False show ?thesis by simp
  qed
qed

lemma distinct_of_nat_upt:
  assumes "n \<le> 2 ^ LENGTH('l)"
  shows "distinct (map of_nat [0..<n] :: 'l::len word list)
       \<and> sorted_wrt (<) (map of_nat [0..<n] :: 'l word list)"
proof -
  have lt: "(of_nat i :: 'l word) < of_nat j" if "i < j" "j < n" for i j
    using that assms by (simp add: word_of_nat_less_iff take_bit_nat_eq_self)
  have "sorted_wrt (<) (map of_nat [0..<n] :: 'l word list)"
    by (simp add: sorted_wrt_map sorted_wrt_iff_nth_less lt)
  then show ?thesis
    by (simp add: strict_sorted_iff)
qed

lemma created_ids_append:
  "created_ids (xs @ ys) s = created_ids xs s @ created_ids ys (run xs s)"
  by (induction xs arbitrary: s) auto

lemma run_append: "run (xs @ ys) s = run ys (run xs s)"
  by (induction xs arbitrary: s) auto

lemma add_delete_once:
  assumes "vhd_list s = []" and "fs s ''f'' = Some bs"
  shows "vhd_list (run add_delete s) = [] \<and> fs (run add_delete s) ''f'' = Some bs
       \<and> length (created_ids add_delete s) = 1"
  using assms
  by (simp add: add_delete_def grub_cmd_vhd_def grub_file_open_def grub_malloc_def grub_strdup_def delete_vhd_def
      grub_file_close_def Let_def)

lemma add_delete_many:
  assumes "vhd_list s = []" and "fs s ''f'' = Some bs"
  shows "vhd_list (run (concat (replicate n add_delete)) s) = []
       \<and> fs (run (concat (replicate n add_delete)) s) ''f'' = Some bs
       \<and> length (created_ids (concat (replicate n add_delete)) s) = n"
  using assms
proof (induction n arbitrary: s)
  case 0
  then show ?case by simp
next
  case (Suc n)
  from add_delete_once [OF Suc.prems] Suc.IH [of "run add_delete s"]
  show ?case by (simp add: run_append created_ids_append)
qed

lemma not_distinct_wrapped:
  assumes ids: "xs = map of_nat [0..<length xs]" and len: "length xs = Suc N"
    and N: "(of_nat N :: 'l::len word) = 0" "0 < N"
  shows "\<not> distinct (xs :: 'l word list)"
proof -
  have "xs ! 0 = of_nat 0"
    by (subst ids) (simp add: len del: upt_Suc)
  moreover have "xs ! N = of_nat N"
    by (subst ids) (simp add: len del: upt_Suc)
  ultimately have "xs ! 0 = xs ! N"
    using N(1) by simp
  moreover have "0 < length xs" "N < length xs" "0 \<noteq> N"
    using len N(2) by simp_all
  ultimately show ?thesis
    by (metis distinct_conv_nth)
qed

subsection \<open>Byte order\<close>

lemma masks32: "(0xFF00 :: 32 word) = push_bit 8 (mask 8)" "(0xFF0000 :: 32 word) = push_bit 16 (mask 8)"
  by (simp_all add: mask_eq_exp_minus_1)

lemma byte_bit_high: "8 \<le> k \<Longrightarrow> bit (b :: byte) k \<longleftrightarrow> False"
  using bit_imp_le_length [of b k] by auto

lemma swap32_bytes: "grub_swap_bytes32 (load_le [b0, b1, b2, b3]) =
   push_bit 24 (ucast b0) OR push_bit 16 (ucast b1) OR push_bit 8 (ucast b2) OR ucast b3"
proof (rule bit_eqI)
  fix n
  assume "possible_bit TYPE(32 word) n"
  then have n: "n < 32" by simp
  consider "n < 8" | "8 \<le> n" "n < 16" | "16 \<le> n" "n < 24" | "24 \<le> n" "n < 32"
    using n by linarith
  then show "bit (grub_swap_bytes32 (load_le [b0, b1, b2, b3])) n =
     bit (push_bit 24 (ucast b0) OR push_bit 16 (ucast b1) OR push_bit 8 (ucast b2) OR ucast b3 :: 32 word) n"
    by cases (simp_all add: grub_swap_bytes32_def masks32 bit_simps byte_bit_high, auto)
qed

lemma masks64:
  "(0xFF00 :: 64 word) = push_bit 8 (mask 8)"
  "(0xFF0000 :: 64 word) = push_bit 16 (mask 8)"
  "(0xFF000000 :: 64 word) = push_bit 24 (mask 8)"
  "(0xFF00000000 :: 64 word) = push_bit 32 (mask 8)"
  "(0xFF0000000000 :: 64 word) = push_bit 40 (mask 8)"
  "(0xFF000000000000 :: 64 word) = push_bit 48 (mask 8)"
  by (simp_all add: mask_eq_exp_minus_1)

lemma swap64_bytes: "grub_swap_bytes64 (load_le [b0, b1, b2, b3, b4, b5, b6, b7]) =
   push_bit 56 (ucast b0) OR push_bit 48 (ucast b1) OR push_bit 40 (ucast b2) OR push_bit 32 (ucast b3)
   OR push_bit 24 (ucast b4) OR push_bit 16 (ucast b5) OR push_bit 8 (ucast b6) OR ucast b7"
proof (rule bit_eqI)
  fix n
  assume "possible_bit TYPE(64 word) n"
  then have n: "n < 64" by simp
  consider "n < 8" | "8 \<le> n" "n < 16" | "16 \<le> n" "n < 24" | "24 \<le> n" "n < 32"
    | "32 \<le> n" "n < 40" | "40 \<le> n" "n < 48" | "48 \<le> n" "n < 56" | "56 \<le> n" "n < 64"
    using n by linarith
  then show "bit (grub_swap_bytes64 (load_le [b0, b1, b2, b3, b4, b5, b6, b7])) n =
     bit (push_bit 56 (ucast b0) OR push_bit 48 (ucast b1) OR push_bit 40 (ucast b2) OR push_bit 32 (ucast b3)
   OR push_bit 24 (ucast b4) OR push_bit 16 (ucast b5) OR push_bit 8 (ucast b6) OR ucast b7 :: 64 word) n"
    by cases (simp_all add: grub_swap_bytes64_def masks64 bit_simps byte_bit_high, auto)
qed

lemma or_byte:
  fixes x :: "'a::len word" and b :: byte
  shows "push_bit 8 x OR ucast b = push_bit 8 x + ucast b"
proof (rule disjunctive_add [symmetric])
  fix n
  show "\<not> bit (push_bit 8 x) n \<or> \<not> bit (ucast b :: 'a word) n"
    by (cases "8 \<le> n") (simp_all add: bit_simps byte_bit_high)
qed

lemma unat_or_byte:
  fixes x :: "'a::len word" and b :: byte
  assumes "unat x * 256 + 255 < 2 ^ LENGTH('a)"
  shows "unat (push_bit 8 x OR ucast b) = unat x * 256 + unat b"
proof -
  have b: "unat b < 256"
    using unsigned_less [of b] by simp
  with assms have "unat b < 2 ^ LENGTH('a)"
    by linarith
  then have ub: "unat (ucast b :: 'a word) = unat b"
    by (simp add: unsigned_ucast_eq take_bit_nat_eq_self)
  from assms have "unat x * 256 < 2 ^ LENGTH('a)"
    by linarith
  then have up: "unat (push_bit 8 x) = unat x * 256"
    by (simp add: unsigned_push_bit_eq push_bit_eq_mult [where ?'a = nat] take_bit_nat_eq_self)
  from assms b have "unat (push_bit 8 x) + unat (ucast b :: 'a word) < 2 ^ LENGTH('a)"
    unfolding ub up by linarith
  then have "unat (push_bit 8 x + ucast b) = unat (push_bit 8 x) + unat (ucast b :: 'a word)"
    by (simp add: unat_add_lem)
  then show ?thesis
    by (simp add: or_byte ub up)
qed

lemma unat_swap32:
  "unat (grub_swap_bytes32 (load_le [b0, b1, b2, b3])) = big_endian [b0, b1, b2, b3]"
proof -
  define w0 :: "32 word" where "w0 = ucast b0"
  define w1 where "w1 = push_bit 8 w0 OR ucast b1"
  define w2 where "w2 = push_bit 8 w1 OR ucast b2"
  define w3 where "w3 = push_bit 8 w2 OR ucast b3"
  have b: "unat b0 < 256" "unat b1 < 256" "unat b2 < 256" "unat b3 < 256"
    using unsigned_less [of b0] unsigned_less [of b1] unsigned_less [of b2] unsigned_less [of b3]
    by simp_all
  have u0: "unat w0 = unat b0"
    using b(1) by (simp add: w0_def unsigned_ucast_eq take_bit_nat_eq_self)
  have u1: "unat w1 = unat b0 * 256 + unat b1"
    unfolding w1_def using b by (subst unat_or_byte) (simp_all add: u0)
  have u2: "unat w2 = (unat b0 * 256 + unat b1) * 256 + unat b2"
    unfolding w2_def using b by (subst unat_or_byte) (simp_all add: u1)
  have u3: "unat w3 = ((unat b0 * 256 + unat b1) * 256 + unat b2) * 256 + unat b3"
    unfolding w3_def using b by (subst unat_or_byte) (simp_all add: u2)
  have "grub_swap_bytes32 (load_le [b0, b1, b2, b3]) = w3"
    unfolding swap32_bytes by (simp add: w3_def w2_def w1_def w0_def ac_simps)
  then show ?thesis
    by (simp add: u3)
qed

lemma unat_swap64:
  "unat (grub_swap_bytes64 (load_le [b0, b1, b2, b3, b4, b5, b6, b7]))
     = big_endian [b0, b1, b2, b3, b4, b5, b6, b7]"
proof -
  define w0 :: "64 word" where "w0 = ucast b0"
  define w1 where "w1 = push_bit 8 w0 OR ucast b1"
  define w2 where "w2 = push_bit 8 w1 OR ucast b2"
  define w3 where "w3 = push_bit 8 w2 OR ucast b3"
  define w4 where "w4 = push_bit 8 w3 OR ucast b4"
  define w5 where "w5 = push_bit 8 w4 OR ucast b5"
  define w6 where "w6 = push_bit 8 w5 OR ucast b6"
  define w7 where "w7 = push_bit 8 w6 OR ucast b7"
  have b: "unat b0 < 256" "unat b1 < 256" "unat b2 < 256" "unat b3 < 256"
    "unat b4 < 256" "unat b5 < 256" "unat b6 < 256" "unat b7 < 256"
    using unsigned_less [of b0] unsigned_less [of b1] unsigned_less [of b2] unsigned_less [of b3]
      unsigned_less [of b4] unsigned_less [of b5] unsigned_less [of b6] unsigned_less [of b7]
    by simp_all
  have u0: "unat w0 = unat b0"
    using b(1) by (simp add: w0_def unsigned_ucast_eq take_bit_nat_eq_self)
  have u1: "unat w1 = unat w0 * 256 + unat b1" "unat w1 < 256 ^ 2"
    unfolding w1_def using b by (subst unat_or_byte; simp add: u0)+
  have u2: "unat w2 = unat w1 * 256 + unat b2" "unat w2 < 256 ^ 3"
    unfolding w2_def using b u1(2) by (subst unat_or_byte; simp)+
  have u3: "unat w3 = unat w2 * 256 + unat b3" "unat w3 < 256 ^ 4"
    unfolding w3_def using b u2(2) by (subst unat_or_byte; simp)+
  have u4: "unat w4 = unat w3 * 256 + unat b4" "unat w4 < 256 ^ 5"
    unfolding w4_def using b u3(2) by (subst unat_or_byte; simp)+
  have u5: "unat w5 = unat w4 * 256 + unat b5" "unat w5 < 256 ^ 6"
    unfolding w5_def using b u4(2) by (subst unat_or_byte; simp)+
  have u6: "unat w6 = unat w5 * 256 + unat b6" "unat w6 < 256 ^ 7"
    unfolding w6_def using b u5(2) by (subst unat_or_byte; simp)+
  have u7: "unat w7 = unat w6 * 256 + unat b7"
    unfolding w7_def using b u6(2) by (subst unat_or_byte; simp)
  have "grub_swap_bytes64 (load_le [b0, b1, b2, b3, b4, b5, b6, b7]) = w7"
    unfolding swap64_bytes by (simp add: w7_def w6_def w5_def w4_def w3_def w2_def w1_def w0_def ac_simps)
  then show ?thesis
    by (simp add: u7 u6 u5 u4 u3 u2 u1 u0)
qed

subsection \<open>The file layer\<close>

lemma seek_read_total:
  assumes "files s h = Some f"
  shows "\<exists>B S. seek_read h off buf len s = Some (B, S)"
  using assms
  by (simp add: seek_read_def grub_file_seek_def grub_file_read_def Let_def)

lemma seek_read_frame:
  assumes "seek_read h off buf len s = Some (B, S)" and "files s h = Some f"
  shows "\<exists>f'. files S h = Some f' \<and> contents f' = contents f"
    and "io_log S = io_log s @ [Seek h off, Read h len]"
    and "vhd_list S = vhd_list s" and "last_id S = last_id s"
    and "fs S = fs s" and "next_file S = next_file s"
    and "grub_errno s \<noteq> GRUB_ERR_NONE \<Longrightarrow> grub_errno S \<noteq> GRUB_ERR_NONE"
    and "length (contents f) < unat off \<Longrightarrow> grub_errno S = GRUB_ERR_OUT_OF_RANGE"
    and "unat off \<le> length (contents f) \<Longrightarrow> grub_errno S = grub_errno s"
    and "unat off \<le> length (contents f) \<Longrightarrow>
           B = take len (drop (unat off) (contents f))
               @ drop (length (take len (drop (unat off) (contents f)))) buf"
  using assms
  by (auto simp: seek_read_def grub_file_seek_def grub_file_read_def Let_def
      split: if_splits)

subsection \<open>The arithmetic of the translation\<close>

lemma density_nat: "unat (ucast (drop_bit 9 (x :: 32 word)) :: 64 word) = unat x div 512"
proof -
  have "unat (drop_bit 9 x) < 2 ^ LENGTH(32)"
    by (rule unsigned_less)
  then have "unat (drop_bit 9 x) < 2 ^ 64"
    by simp
  then show ?thesis
    by (simp add: unsigned_ucast_eq take_bit_nat_eq_self unat_drop_bit_eq
        drop_bit_eq_div [where ?'a = nat])
qed

lemma density_zero: "(ucast (drop_bit 9 (x :: 32 word)) :: 64 word) = 0 \<longleftrightarrow> unat x < 512"
proof -
  have "(ucast (drop_bit 9 x) :: 64 word) = 0 \<longleftrightarrow> unat (ucast (drop_bit 9 x) :: 64 word) = 0"
    by (simp add: unat_0_iff)
  also have "\<dots> \<longleftrightarrow> unat x < 512"
    unfolding density_nat by (simp add: div_eq_0_iff)
  finally show ?thesis .
qed



lemma count_nat:
  fixes size' :: "'s::len word"
  shows "unat (ucast (push_bit 9 (ucast size' :: 64 word)) :: 's word)
       = unat size' * 512 mod 2 ^ 64 mod 2 ^ LENGTH('s)"
proof -
  have "unat (ucast size' :: 64 word) = unat size' mod 2 ^ 64"
    by (simp add: unsigned_ucast_eq take_bit_eq_mod)
  then have "unat (push_bit 9 (ucast size' :: 64 word)) = unat size' * 512 mod 2 ^ 64"
    by (simp add: unsigned_push_bit_eq push_bit_eq_mult [where ?'a = nat] take_bit_eq_mod
        mod_mult_left_eq)
  then show ?thesis
    by (simp add: unsigned_ucast_eq take_bit_eq_mod)
qed

lemma divmod_nat:
  assumes "unat x div 512 \<noteq> 0"
  shows "grub_divmod64 sector (ucast (drop_bit 9 (x :: 32 word)))
       = Some (of_nat (unat sector div (unat x div 512)), of_nat (unat sector mod (unat x div 512)))"
proof -
  let ?d = "ucast (drop_bit 9 x) :: 64 word"
  have d: "unat ?d = unat x div 512"
    by (rule density_nat)
  with assms have "?d \<noteq> 0"
    by (metis unat_0_iff)
  moreover have "sector div ?d = of_nat (unat sector div (unat x div 512))"
    by (simp add: word_arith_nat_div d)
  moreover have "sector mod ?d = of_nat (unat sector mod (unat x div 512))"
    by (simp add: word_arith_nat_mod d)
  ultimately show ?thesis
    by (simp add: grub_divmod64_def)
qed

lemma divmod_zero:
  assumes "unat x div 512 = 0"
  shows "grub_divmod64 sector (ucast (drop_bit 9 (x :: 32 word))) = None"
proof -
  have "unat (ucast (drop_bit 9 x) :: 64 word) = 0"
    using assms by (simp add: density_nat)
  then have "(ucast (drop_bit 9 x) :: 64 word) = 0"
    by (simp add: unat_0_iff)
  then show ?thesis
    by (simp add: grub_divmod64_def)
qed

lemma bat_addr_nat:
  "a + push_bit 2 (of_nat q) = (of_nat (unat a + q * 4) :: 64 word)"
  by (simp add: push_bit_eq_mult)

subsection \<open>The steps of a read\<close>

lemma grub_vhd_read_seek_read:
  "grub_vhd_read disk sector (size' :: 's::len word) buf dynheader blocpos s =
     (case seek_read (file_h (data disk)) 512 dynheader 1024 s of
        None \<Rightarrow> Inl Invalid_File
      | Some (hdr, s2) \<Rightarrow>
      (case grub_divmod64 sector
              (ucast (drop_bit 9 (grub_swap_bytes32 (blocsize (as_vhddynheader hdr))))) of
         None \<Rightarrow> Inl Division_By_Zero
       | Some (nb_bloc, offsetbloc) \<Rightarrow>
      (case seek_read (file_h (data disk))
              (grub_swap_bytes64 (BAT (as_vhddynheader hdr)) + push_bit 2 nb_bloc) blocpos 4 s2 of
         None \<Rightarrow> Inl Invalid_File
       | Some (entry, s4) \<Rightarrow>
      (case seek_read (file_h (data disk))
              (push_bit 9 (ucast (grub_swap_bytes32 (load_le (bytes_at entry 0 4)) + 1) + offsetbloc)) buf
              (unat (ucast (push_bit 9 (ucast size' :: 64 word)) :: 's word)) s4 of
         None \<Rightarrow> Inl Invalid_File
       | Some (buf', s6) \<Rightarrow> Inr (grub_errno s6, buf', s6)))))"
  by (simp add: grub_vhd_read_def seek_read_def Let_def GRUB_DISK_SECTOR_BITS_def
      split: option.splits prod.splits)

lemma read_steps:
  fixes size' :: "'s::len word"
  assumes opn: "files s h = Some f" and h: "h = file_h (data disk)"
  shows "\<exists>hdr s2. seek_read h 512 dynheader 1024 s = Some (hdr, s2) \<and>
          (if density_of hdr = 0
           then grub_vhd_read disk sector size' buf dynheader blocpos s = Inl Division_By_Zero
           else (\<exists>entry s4 buf' s'.
              seek_read h (bat_entry_at hdr sector) blocpos 4 s2 = Some (entry, s4)
              \<and> seek_read h (data_at hdr entry sector) buf (byte_count size') s4 = Some (buf', s')
              \<and> grub_vhd_read disk sector size' buf dynheader blocpos s = Inr (grub_errno s', buf', s')
              \<and> io_log s' = io_log s @
                   [Seek h 512, Read h 1024,
                    Seek h (bat_entry_at hdr sector), Read h 4,
                    Seek h (data_at hdr entry sector), Read h (byte_count size')]))"
proof -
  from seek_read_total [OF opn] obtain hdr s2 where
    1: "seek_read h 512 dynheader 1024 s = Some (hdr, s2)" by blast
  from seek_read_frame(1,2) [OF 1 opn] obtain f2 where
    f2: "files s2 h = Some f2" and l2: "io_log s2 = io_log s @ [Seek h 512, Read h 1024]"
    by blast
  let ?x = "grub_swap_bytes32 (blocsize (as_vhddynheader hdr))"
  show ?thesis
  proof (cases "density_of hdr = 0")
    case True
    then have "grub_divmod64 sector (ucast (drop_bit 9 ?x)) = None"
      unfolding density_of_def by (rule divmod_zero)
    with 1 True show ?thesis
      by (simp add: grub_vhd_read_seek_read h [symmetric])
  next
    case False
    then have dm: "grub_divmod64 sector (ucast (drop_bit 9 ?x))
        = Some (of_nat (unat sector div density_of hdr), of_nat (unat sector mod density_of hdr))"
      unfolding density_of_def by (rule divmod_nat)
    from seek_read_total [OF f2] obtain entry s4 where
      2: "seek_read h (bat_entry_at hdr sector) blocpos 4 s2 = Some (entry, s4)" by blast
    from seek_read_frame(1,2) [OF 2 f2] obtain f4 where
      f4: "files s4 h = Some f4"
      and l4: "io_log s4 = io_log s2 @ [Seek h (bat_entry_at hdr sector), Read h 4]"
      by blast
    from seek_read_total [OF f4] obtain buf' s' where
      3: "seek_read h (data_at hdr entry sector) buf (byte_count size') s4 = Some (buf', s')"
      by blast
    from seek_read_frame(2) [OF 3 f4] have
      l6: "io_log s' = io_log s4 @ [Seek h (data_at hdr entry sector), Read h (byte_count size')]" .
    have "grub_vhd_read disk sector size' buf dynheader blocpos s = Inr (grub_errno s', buf', s')"
      using 1 2 3 dm
      by (simp add: grub_vhd_read_seek_read h [symmetric] bat_addr_nat bat_entry_at_def
          data_at_def byte_count_def count_nat)
    with 1 2 3 False l2 l4 l6 show ?thesis
      by simp
  qed
qed

subsection \<open>Reading a well-formed image\<close>

lemma big_endian_swap32:
  assumes "length bs = 4"
  shows "unat (grub_swap_bytes32 (load_le bs)) = big_endian bs"
proof -
  from assms obtain b0 b1 b2 b3 where "bs = [b0, b1, b2, b3]"
    by (auto simp: length_Suc_conv numeral_eq_Suc)
  then show ?thesis
    by (simp only: unat_swap32)
qed

lemma big_endian_swap64:
  assumes "length bs = 8"
  shows "unat (grub_swap_bytes64 (load_le bs)) = big_endian bs"
proof -
  from assms obtain b0 b1 b2 b3 b4 b5 b6 b7 where "bs = [b0, b1, b2, b3, b4, b5, b6, b7]"
    by (auto simp: length_Suc_conv numeral_eq_Suc)
  then show ?thesis
    by (simp only: unat_swap64)
qed

lemma big_endian_less: "big_endian bs < 256 ^ length bs"
proof (induction bs)
  case Nil
  then show ?case by simp
next
  case (Cons b bs)
  define P :: nat where "P = 256 ^ length bs"
  have "unat b < 256"
    using unsigned_less [of b] by simp
  then have "unat b * P \<le> 255 * P"
    by (intro mult_le_mono1) simp
  moreover have "big_endian bs < P"
    using Cons by (simp add: P_def)
  ultimately have "unat b * P + big_endian bs < 256 * P"
    by linarith
  then show ?case
    by (simp add: P_def)
qed

lemma bytes_at_file_header:
  assumes "1536 \<le> length cs" and "at + n \<le> 1024"
  shows "bytes_at (take 1024 (drop 512 cs) @ rest) at n = take n (drop (512 + at) cs)"
    and "length (take n (drop (512 + at) cs)) = n"
  using assms by (auto simp: bytes_at_def take_drop min_def add.commute)

lemma seek_read_errno_kept:
  assumes "seek_read h off buf len s = Some (B, S)" and "files s h = Some f"
    and "grub_errno s = GRUB_ERR_OUT_OF_RANGE"
  shows "grub_errno S = GRUB_ERR_OUT_OF_RANGE"
  using seek_read_frame(8,9) [OF assms(1,2)] assms(3)
  by (cases "unat off \<le> length (contents f)") simp_all

lemma blocsize_of_file:
  assumes "1536 \<le> length cs"
  shows "unat (grub_swap_bytes32 (blocsize (as_vhddynheader (take 1024 (drop 512 cs) @ rest))))
       = big_endian (take 4 (drop 544 cs))"
  using bytes_at_file_header(1) [where at = 32 and n = 4 and rest = rest, OF assms]
    bytes_at_file_header(2) [where at = 32 and n = 4, OF assms]
  by (simp add: as_vhddynheader_def big_endian_swap32)

lemma BAT_of_file:
  assumes "1536 \<le> length cs"
  shows "unat (grub_swap_bytes64 (BAT (as_vhddynheader (take 1024 (drop 512 cs) @ rest))))
       = big_endian (take 8 (drop 528 cs))"
  using bytes_at_file_header(1) [where at = 16 and n = 8 and rest = rest, OF assms]
    bytes_at_file_header(2) [where at = 16 and n = 8, OF assms]
  by (simp add: as_vhddynheader_def big_endian_swap64)

lemma header_of_file:
  assumes "seek_read h 512 dynheader 1024 s = Some (hdr, s2)" and "files s h = Some f"
    and "1536 \<le> length (contents f)"
  shows "hdr = take 1024 (drop 512 (contents f)) @ drop 1024 dynheader"
  using seek_read_frame(10) [OF assms(1,2)] assms(3) by simp

lemma read_of_image:
  fixes size' :: "'s::len word"
  assumes opn: "files s h = Some f" and h: "h = file_h (data disk)"
    and len: "length (contents f) < 2 ^ 64"
    and hdr: "1536 \<le> length (contents f)"
    and bs: "blockSize = big_endian (take 4 (drop 544 (contents f)))" "512 \<le> blockSize"
    and bo: "batOffset = big_endian (take 8 (drop 528 (contents f)))"
    and bi: "blockIndex = unat sector div (blockSize div 512)"
    and sib: "sectorInBlock = unat sector mod (blockSize div 512)"
    and bat: "batOffset + blockIndex * 4 + 4 \<le> length (contents f)"
    and e: "e = take 4 (drop (batOffset + blockIndex * 4) (contents f))"
    and pos: "pos = push_bit 9 (ucast (grub_swap_bytes32 (load_le e) + 1) + of_nat sectorInBlock)"
  shows "\<exists>buf' s' s4 f4.
      seek_read h pos buf (byte_count size') s4 = Some (buf', s')
      \<and> files s4 h = Some f4 \<and> contents f4 = contents f \<and> grub_errno s4 = grub_errno s
      \<and> grub_vhd_read disk sector size' buf dynheader blocpos s = Inr (grub_errno s', buf', s')
      \<and> io_log s' = io_log s @
           [Seek h 512, Read h 1024, Seek h (of_nat (batOffset + blockIndex * 4)), Read h 4,
            Seek h pos, Read h (byte_count size')]"
proof -
  let ?cs = "contents f"
  from read_steps [OF opn h, of dynheader sector size' buf blocpos] obtain hdr0 s2 where
    1: "seek_read h 512 dynheader 1024 s = Some (hdr0, s2)"
    and rest: "if density_of hdr0 = 0
         then grub_vhd_read disk sector size' buf dynheader blocpos s = Inl Division_By_Zero
         else (\<exists>entry s4 buf' s'.
              seek_read h (bat_entry_at hdr0 sector) blocpos 4 s2 = Some (entry, s4)
              \<and> seek_read h (data_at hdr0 entry sector) buf (byte_count size') s4 = Some (buf', s')
              \<and> grub_vhd_read disk sector size' buf dynheader blocpos s = Inr (grub_errno s', buf', s')
              \<and> io_log s' = io_log s @
                   [Seek h 512, Read h 1024,
                    Seek h (bat_entry_at hdr0 sector), Read h 4,
                    Seek h (data_at hdr0 entry sector), Read h (byte_count size')])"
    by blast
  have hdr0: "hdr0 = take 1024 (drop 512 ?cs) @ drop 1024 dynheader"
    using 1 opn hdr by (rule header_of_file)
  have d: "density_of hdr0 = blockSize div 512"
    unfolding density_of_def hdr0 bs(1) by (simp add: blocsize_of_file [OF hdr])
  from bs(2) have nz: "density_of hdr0 \<noteq> 0"
    unfolding d by (simp add: div_eq_0_iff)
  have B: "unat (grub_swap_bytes64 (BAT (as_vhddynheader hdr0))) = batOffset"
    unfolding hdr0 bo by (rule BAT_of_file [OF hdr])
  have a: "bat_entry_at hdr0 sector = of_nat (batOffset + blockIndex * 4)"
    unfolding bat_entry_at_def d B bi ..
  from rest nz obtain entry s4 buf' s' where
    2: "seek_read h (bat_entry_at hdr0 sector) blocpos 4 s2 = Some (entry, s4)"
    and 3: "seek_read h (data_at hdr0 entry sector) buf (byte_count size') s4 = Some (buf', s')"
    and r: "grub_vhd_read disk sector size' buf dynheader blocpos s = Inr (grub_errno s', buf', s')"
    and l: "io_log s' = io_log s @
                   [Seek h 512, Read h 1024,
                    Seek h (bat_entry_at hdr0 sector), Read h 4,
                    Seek h (data_at hdr0 entry sector), Read h (byte_count size')]"
    by auto
  from hdr have le: "unat (512 :: 64 word) \<le> length ?cs"
    by simp
  from seek_read_frame(1) [OF 1 opn] obtain f2 where
    f2: "files s2 h = Some f2" "contents f2 = ?cs" by blast
  have e2: "grub_errno s2 = grub_errno s"
    using seek_read_frame(9) [OF 1 opn le] .
  from bat len have "batOffset + blockIndex * 4 < 2 ^ LENGTH(64)"
    by simp
  then have u: "unat (of_nat (batOffset + blockIndex * 4) :: 64 word) = batOffset + blockIndex * 4"
    by (simp only: unat_of_nat mod_less)
  with bat have le2: "unat (bat_entry_at hdr0 sector) \<le> length (contents f2)"
    unfolding a f2(2) by simp
  from seek_read_frame(1) [OF 2 f2(1)] obtain f4 where
    f4: "files s4 h = Some f4" "contents f4 = ?cs" unfolding f2(2) by blast
  have e4: "grub_errno s4 = grub_errno s"
    using seek_read_frame(9) [OF 2 f2(1) le2] e2 by simp
  have "entry = take 4 (drop (batOffset + blockIndex * 4) ?cs)
                @ drop (length (take 4 (drop (batOffset + blockIndex * 4) ?cs))) blocpos"
    using seek_read_frame(10) [OF 2 f2(1) le2] unfolding a u f2(2) .
  moreover have "length (take 4 (drop (batOffset + blockIndex * 4) ?cs)) = 4"
    using bat by simp
  ultimately have m: "bytes_at entry 0 4 = e"
    unfolding e by (simp add: bytes_at_def)
  have p: "data_at hdr0 entry sector = pos"
    unfolding data_at_def m pos d sib ..
  from 3 r l f4 e4 show ?thesis
    unfolding p a by blast
qed


lemma sector_in_block_less:
  assumes "blockSize = big_endian bs" and "length bs = 4" and "512 \<le> blockSize"
  shows "unat (sector :: 64 word) mod (blockSize div 512) < 2 ^ 23"
proof -
  from big_endian_less [of bs] assms(1,2) have "blockSize < 2 ^ 32"
    by simp
  then have "blockSize div 512 \<le> 2 ^ 23"
    by simp
  moreover from assms(3) have "0 < blockSize div 512"
    by (simp add: div_greater_zero_iff)
  then have "unat sector mod (blockSize div 512) < blockSize div 512"
    by simp
  ultimately show ?thesis
    by linarith
qed

lemma data_transfer:
  assumes sr: "seek_read h (of_nat pos) buf n s4 = Some (buf', s')"
    and f4: "files s4 h = Some f4" "contents f4 = cs"
    and pos: "pos < 2 ^ 64"
  shows "pos \<le> length cs \<longrightarrow>
           grub_errno s' = grub_errno s4
           \<and> buf' = take n (drop pos cs) @ drop (length (take n (drop pos cs))) buf"
    and "length cs < pos \<longrightarrow> grub_errno s' = GRUB_ERR_OUT_OF_RANGE"
proof -
  from pos have "pos < 2 ^ LENGTH(64)"
    by simp
  then have u: "unat (of_nat pos :: 64 word) = pos"
    by (simp only: unat_of_nat mod_less)
  note fr = seek_read_frame(8,9,10) [OF sr f4(1), unfolded u f4(2)]
  from fr show "pos \<le> length cs \<longrightarrow>
           grub_errno s' = grub_errno s4
           \<and> buf' = take n (drop pos cs) @ drop (length (take n (drop pos cs))) buf"
    by blast
  from fr show "length cs < pos \<longrightarrow> grub_errno s' = GRUB_ERR_OUT_OF_RANGE"
    by blast
qed

subsection \<open>The registry\<close>

text \<open>C2: in a registry that has a device named \<open>d\<close>, an add request for \<open>d\<close> whose file
  opens returns 0; afterwards exactly one record is named \<open>d\<close>, its backing file is the
  newly opened one, still open with its cursor at 0, the file it had before is closed, its
  identity is the one it had, and every other record is what it was, in its place.\<close>

theorem add_replaces_in_place:
  assumes "registry_ok s"
    and "find_dev d (vhd_list s) = Some old"
    and "fs s path = Some bs"
  shows "(let res = grub_cmd_vhd False (d # path # rest) malloc_ok strdup_ok s; s' = snd res in
          fst res = GRUB_ERR_NONE
          \<and> vhd_list s' =
              map (\<lambda>e. if devname e = d then e\<lparr>file_h := next_file s\<rparr> else e) (vhd_list s)
          \<and> length (filter (\<lambda>e. devname e = d) (vhd_list s')) = 1
          \<and> find_dev d (vhd_list s') = Some (old\<lparr>file_h := next_file s\<rparr>)
          \<and> id_no (the (find_dev d (vhd_list s'))) = id_no old
          \<and> files s' (next_file s) = Some \<lparr>contents = bs, offset = 0\<rparr>
          \<and> files s' (file_h old) = None
          \<and> last_id s' = last_id s
          \<and> registry_ok s')"
proof -
  let ?res = "grub_cmd_vhd False (d # path # rest) malloc_ok strdup_ok s"
  let ?s' = "snd ?res"
  from assms(2) have old: "old \<in> set (vhd_list s)" "devname old = d"
    by (auto dest: find_dev_Some)
  from assms(1) have dist: "distinct (map devname (vhd_list s))"
    by (simp add: registry_ok_def)
  from assms(1) old have fresh: "file_h old \<noteq> next_file s"
    by (auto simp: registry_ok_def)
  from assms(2,3) have r: "fst ?res = GRUB_ERR_NONE"
    and s': "?s' = (grub_file_close (file_h old)
                    (s\<lparr>files := (files s)(next_file s \<mapsto> \<lparr>contents = bs, offset = 0\<rparr>),
                       next_file := Suc (next_file s)\<rparr>))
                  \<lparr>vhd_list := assign_file d (next_file s) (vhd_list s)\<rparr>"
    by (simp_all add: grub_cmd_vhd_def grub_file_open_def grub_file_close_fields Let_def)
  have l: "vhd_list ?s' = assign_file d (next_file s) (vhd_list s)"
    by (simp add: s')
  have one: "length (filter (\<lambda>e. devname e = d) (vhd_list ?s')) = 1"
  proof (rule one_named)
    show "distinct (map devname (vhd_list ?s'))"
      using dist by (simp add: l assign_file_names)
    have "d \<in> set (map devname (vhd_list ?s'))"
      using old unfolding l assign_file_names by auto
    then show "d \<in> devname ` set (vhd_list ?s')" by simp
  qed
  have fd: "find_dev d (vhd_list ?s') = Some (old\<lparr>file_h := next_file s\<rparr>)"
    using assms(2) unfolding l by (rule find_dev_assign_file)
  have f: "files ?s' (next_file s) = Some \<lparr>contents = bs, offset = 0\<rparr>"
    "files ?s' (file_h old) = None" "last_id ?s' = last_id s"
    using fresh by (simp_all add: s' grub_file_close_def)
  have ok: "registry_ok ?s'"
    using assms(1) by (rule registry_ok_cmd)
  show ?thesis
    unfolding Let_def using r one fd f ok l assign_file_map [OF dist, of d "next_file s"]
    by simp
qed

theorem add_replaces_in_place_witness:
  "registry_ok (one_device :: 32 word state)
   \<and> find_dev ''a'' (vhd_list (one_device :: 32 word state))
       = Some \<lparr>devname = ''a'', file_h = 0, id_no = 0\<rparr>
   \<and> fs (one_device :: 32 word state) ''new.vhd'' = Some [1, 2, 3]
   \<and> fst (grub_cmd_vhd False [''a'', ''new.vhd''] True True (one_device :: 32 word state))
       = GRUB_ERR_NONE
   \<and> vhd_list (snd (grub_cmd_vhd False [''a'', ''new.vhd''] True True (one_device :: 32 word state)))
       = [\<lparr>devname = ''a'', file_h = 1, id_no = 0\<rparr>]
   \<and> files (snd (grub_cmd_vhd False [''a'', ''new.vhd''] True True (one_device :: 32 word state))) 1
       = Some \<lparr>contents = [1, 2, 3], offset = 0\<rparr>
   \<and> files (snd (grub_cmd_vhd False [''a'', ''new.vhd''] True True (one_device :: 32 word state))) 0
       = None"
proof -
  have h1: "registry_ok (one_device :: 32 word state)"
    by (simp add: registry_ok_def one_device_def)
  have h2: "find_dev ''a'' (vhd_list (one_device :: 32 word state))
      = Some \<lparr>devname = ''a'', file_h = 0, id_no = 0\<rparr>"
    by (simp add: one_device_def)
  have h3: "fs (one_device :: 32 word state) ''new.vhd'' = Some [1, 2, 3]"
    by (simp add: one_device_def)
  have n: "next_file (one_device :: 32 word state) = 1"
    "vhd_list (one_device :: 32 word state) = [\<lparr>devname = ''a'', file_h = 0, id_no = 0\<rparr>]"
    by (simp_all add: one_device_def)
  show ?thesis
    using h1 h2 h3 add_replaces_in_place [OF h1 h2 h3, of "[]" True True]
    unfolding Let_def n by simp
qed

text \<open>C3: an add request for a name that is not registered, whose file opens and whose
  record allocation or name duplication fails, returns the error left in
  \<^verbatim>\<open>grub_errno\<close>; the file it had opened is closed again, and the list of the registry
  and the identity counter are what they were before the call.\<close>

theorem failed_add_leaves_registry:
  assumes "find_dev name (vhd_list s) = None"
    and "fs s path = Some bs"
    and "\<not> malloc_ok \<or> \<not> strdup_ok"
  shows "(let res = grub_cmd_vhd False (name # path # rest) malloc_ok strdup_ok s; s' = snd res in
          fst res = GRUB_ERR_OUT_OF_MEMORY
          \<and> grub_errno s' = fst res
          \<and> vhd_list s' = vhd_list s
          \<and> last_id s' = last_id s
          \<and> files s' (next_file s) = None
          \<and> files s' = (files s)(next_file s := None)
          \<and> io_log s' = io_log s @ [Close (next_file s)])"
  using assms
  by (auto simp: grub_cmd_vhd_def grub_file_open_def grub_file_close_def grub_malloc_def grub_strdup_def Let_def)

theorem failed_add_leaves_registry_witness:
  "find_dev ''b'' (vhd_list (one_device :: 32 word state)) = None
   \<and> fs (one_device :: 32 word state) ''new.vhd'' = Some [1, 2, 3]
   \<and> fst (grub_cmd_vhd False [''b'', ''new.vhd''] True False (one_device :: 32 word state))
       = GRUB_ERR_OUT_OF_MEMORY
   \<and> vhd_list (snd (grub_cmd_vhd False [''b'', ''new.vhd''] True False (one_device :: 32 word state)))
       = [\<lparr>devname = ''a'', file_h = 0, id_no = 0\<rparr>]
   \<and> last_id (snd (grub_cmd_vhd False [''b'', ''new.vhd''] True False (one_device :: 32 word state)))
       = 1
   \<and> files (snd (grub_cmd_vhd False [''b'', ''new.vhd''] True False (one_device :: 32 word state))) 1
       = None
   \<and> io_log (snd (grub_cmd_vhd False [''b'', ''new.vhd''] True False (one_device :: 32 word state)))
       = [Close 1]"
proof -
  have h1: "find_dev ''b'' (vhd_list (one_device :: 32 word state)) = None"
    by (simp add: one_device_def)
  have h2: "fs (one_device :: 32 word state) ''new.vhd'' = Some [1, 2, 3]"
    by (simp add: one_device_def)
  have h3: "\<not> True \<or> \<not> False"
    by simp
  have n: "next_file (one_device :: 32 word state) = 1"
    "vhd_list (one_device :: 32 word state) = [\<lparr>devname = ''a'', file_h = 0, id_no = 0\<rparr>]"
    "last_id (one_device :: 32 word state) = 1" "io_log (one_device :: 32 word state) = []"
    by (simp_all add: one_device_def)
  show ?thesis
    using h1 h2 failed_add_leaves_registry [OF h1 h2 h3, of "[]"]
    unfolding Let_def n by simp
qed

text \<open>C6: deleting a name that no device of the registry has returns
  \<^verbatim>\<open>GRUB_ERR_BAD_DEVICE\<close>; the list of the registry (so its length and its records, in
  order), the counter, the open files and their contents are as before: only
  \<^verbatim>\<open>grub_errno\<close> has changed.\<close>

theorem delete_vhd_not_found:
  assumes "name \<notin> devname ` set (vhd_list s)"
  shows "fst (delete_vhd name s) = GRUB_ERR_BAD_DEVICE
       \<and> fst (grub_cmd_vhd True (name # rest) malloc_ok strdup_ok s) = GRUB_ERR_BAD_DEVICE
       \<and> snd (grub_cmd_vhd True (name # rest) malloc_ok strdup_ok s) = snd (delete_vhd name s)
       \<and> vhd_list (snd (delete_vhd name s)) = vhd_list s
       \<and> length (vhd_list (snd (delete_vhd name s))) = length (vhd_list s)
       \<and> last_id (snd (delete_vhd name s)) = last_id s
       \<and> files (snd (delete_vhd name s)) = files s
       \<and> io_log (snd (delete_vhd name s)) = io_log s
       \<and> snd (delete_vhd name s) = s\<lparr>grub_errno := GRUB_ERR_BAD_DEVICE\<rparr>"
  using assms
  by (simp add: grub_cmd_vhd_def delete_vhd_def unlink_None [symmetric] grub_error_def)

theorem delete_vhd_not_found_witness:
  "''b'' \<notin> devname ` set (vhd_list (one_device :: 32 word state))
   \<and> fst (delete_vhd ''b'' (one_device :: 32 word state)) = GRUB_ERR_BAD_DEVICE
   \<and> vhd_list (snd (delete_vhd ''b'' (one_device :: 32 word state)))
       = [\<lparr>devname = ''a'', file_h = 0, id_no = 0\<rparr>]
   \<and> length (vhd_list (snd (delete_vhd ''b'' (one_device :: 32 word state)))) = 1"
proof -
  have h: "''b'' \<notin> devname ` set (vhd_list (one_device :: 32 word state))"
    by (simp add: one_device_def)
  show ?thesis
    using h delete_vhd_not_found [OF h, of "[]" True True] by (simp add: one_device_def)
qed

text \<open>C8 (as amended): a successful add of a name that is not registered gives the new
  record the current value of \<^verbatim>\<open>last_id\<close>, adds 1 to the counter and puts the record
  at the head of the list. Along any sequence of adds and deletes from the initial state,
  the \<open>k\<close>-th creation (counting from 0) therefore gets the identity \<open>k\<close> modulo the
  range of \<^verbatim>\<open>unsigned long\<close>, whatever was deleted in between, and the counter ends at
  the number of creations; as long as there are no more creations than
  \<^verbatim>\<open>unsigned long\<close> has values, the identities are strictly increasing and none is
  given twice.\<close>

theorem identities_from_counter:
  fixes s :: "'l::len word state"
  shows "(find_dev name (vhd_list s) = None
          \<and> fst (grub_cmd_vhd False (name # path # rest) malloc_ok strdup_ok s) = GRUB_ERR_NONE
          \<longrightarrow> vhd_list (snd (grub_cmd_vhd False (name # path # rest) malloc_ok strdup_ok s))
                = \<lparr>devname = name, file_h = next_file s, id_no = last_id s\<rparr> # vhd_list s
              \<and> last_id (snd (grub_cmd_vhd False (name # path # rest) malloc_ok strdup_ok s))
                = last_id s + 1)
       \<and> created_ids cs (initial disk_files :: 'l word state)
           = map of_nat [0..<length (created_ids cs (initial disk_files :: 'l word state))]
       \<and> last_id (run cs (initial disk_files :: 'l word state))
           = of_nat (length (created_ids cs (initial disk_files :: 'l word state)))
       \<and> (length (created_ids cs (initial disk_files :: 'l word state)) \<le> 2 ^ LENGTH('l)
          \<longrightarrow> distinct (created_ids cs (initial disk_files :: 'l word state))
              \<and> sorted_wrt (<) (created_ids cs (initial disk_files :: 'l word state)))"
proof -
  let ?i = "initial disk_files :: 'l word state"
  have z: "last_id ?i = 0"
    by (simp add: initial_def)
  from created_ids_from [of cs ?i] have ids:
    "created_ids cs ?i = map of_nat [0..<length (created_ids cs ?i)]"
    and cnt: "last_id (run cs ?i) = of_nat (length (created_ids cs ?i))"
    unfolding z by simp_all
  have "distinct (created_ids cs ?i) \<and> sorted_wrt (<) (created_ids cs ?i)"
    if "length (created_ids cs ?i) \<le> 2 ^ LENGTH('l)"
    using distinct_of_nat_upt [OF that] ids by simp
  with ids cnt create_step [of name s path rest malloc_ok strdup_ok] show ?thesis
    by blast
qed

theorem identities_from_counter_witness:
  "find_dev ''b'' (vhd_list (one_device :: 32 word state)) = None
   \<and> fst (grub_cmd_vhd False [''b'', ''new.vhd''] True True (one_device :: 32 word state))
       = GRUB_ERR_NONE
   \<and> vhd_list (snd (grub_cmd_vhd False [''b'', ''new.vhd''] True True (one_device :: 32 word state)))
       = [\<lparr>devname = ''b'', file_h = 1, id_no = 1\<rparr>, \<lparr>devname = ''a'', file_h = 0, id_no = 0\<rparr>]
   \<and> last_id (snd (grub_cmd_vhd False [''b'', ''new.vhd''] True True (one_device :: 32 word state)))
       = 2
   \<and> length (created_ids [Add ''a'' ''fa'' True True, Add ''b'' ''fb'' True True, Delete ''a'',
                            Add ''a'' ''fc'' True True] (initial three_files :: 32 word state))
       \<le> 2 ^ LENGTH(32)
   \<and> created_ids [Add ''a'' ''fa'' True True, Add ''b'' ''fb'' True True, Delete ''a'',
                   Add ''a'' ''fc'' True True] (initial three_files :: 32 word state)
       = [0, 1, 2]
   \<and> distinct (created_ids [Add ''a'' ''fa'' True True, Add ''b'' ''fb'' True True, Delete ''a'',
                   Add ''a'' ''fc'' True True] (initial three_files :: 32 word state))"
proof -
  let ?cs = "[Add ''a'' ''fa'' True True, Add ''b'' ''fb'' True True, Delete ''a'',
              Add ''a'' ''fc'' True True]"
  have h1: "find_dev ''b'' (vhd_list (one_device :: 32 word state)) = None"
    by (simp add: one_device_def)
  have h2: "fst (grub_cmd_vhd False [''b'', ''new.vhd''] True True (one_device :: 32 word state))
      = GRUB_ERR_NONE"
    by (simp add: one_device_def grub_cmd_vhd_def grub_file_open_def grub_malloc_def grub_strdup_def)
  have c: "created_ids ?cs (initial three_files :: 32 word state) = [0, 1, 2]"
    by (simp add: initial_def three_files_def grub_cmd_vhd_def grub_file_open_def
        grub_malloc_def grub_strdup_def delete_vhd_def grub_file_close_def)
  have n: "next_file (one_device :: 32 word state) = 1"
    "vhd_list (one_device :: 32 word state) = [\<lparr>devname = ''a'', file_h = 0, id_no = 0\<rparr>]"
    "last_id (one_device :: 32 word state) = 1"
    by (simp_all add: one_device_def)
  from identities_from_counter
    [of "''b''" "one_device :: 32 word state" "''new.vhd''" "[]" True True ?cs three_files]
  show ?thesis
    unfolding c n using h1 h2 by simp
qed

text \<open>The claim as it was stated fails when the counter wraps around. With a 32-bit
  \<^verbatim>\<open>unsigned long\<close>, \<open>2 ^ 32\<close> rounds of adding and deleting the device \<open>a\<close> followed
  by one more add create \<open>2 ^ 32 + 1\<close> devices, and the last one gets the identity 0 that
  the first one had.\<close>

theorem identities_reused_after_wrap:
  "\<not> distinct (created_ids (concat (replicate wrap_count add_delete) @ [Add ''a'' ''f'' True True])
                  (initial [''f'' \<mapsto> []] :: 32 word state))"
proof -
  let ?s = "initial [''f'' \<mapsto> []] :: 32 word state"
  let ?cs = "concat (replicate wrap_count add_delete) @ [Add ''a'' ''f'' True True]"
  have s: "vhd_list ?s = []" "fs ?s ''f'' = Some []" "last_id ?s = 0"
    by (simp_all add: initial_def)
  note many = add_delete_many [OF s(1) s(2), of wrap_count]
  let ?t = "run (concat (replicate wrap_count add_delete)) ?s"
  from many have "created_ids [Add ''a'' ''f'' True True] ?t \<noteq> []"
    by (simp add: grub_cmd_vhd_def grub_file_open_def grub_malloc_def grub_strdup_def Let_def)
  then have "length (created_ids [Add ''a'' ''f'' True True] ?t) = 1"
    by (simp split: if_splits)
  with many have len: "length (created_ids ?cs ?s) = Suc wrap_count"
    by (simp add: created_ids_append)
  from created_ids_from [of ?cs ?s] have ids:
    "created_ids ?cs ?s = map of_nat [0..<length (created_ids ?cs ?s)]"
    unfolding s(3) by simp
  have "(of_nat wrap_count :: 32 word) = 0" "0 < wrap_count"
    by (simp_all add: wrap_count_def)
  with ids len show ?thesis
    by (rule not_distinct_wrapped)
qed

subsection \<open>The disk backend\<close>

text \<open>C5: whatever the disk, the sector, the size and the buffer, \<^verbatim>\<open>grub_vhd_write\<close>
  returns \<^verbatim>\<open>GRUB_ERR_NOT_IMPLEMENTED_YET\<close>; it makes no call on the file layer, and
  the open files with their contents, the files on disk, the list of the registry and the
  counter are untouched: the state differs in \<^verbatim>\<open>grub_errno\<close> only.\<close>

theorem write_not_implemented:
  "fst (grub_vhd_write disk sector size' buf s) = GRUB_ERR_NOT_IMPLEMENTED_YET
   \<and> files (snd (grub_vhd_write disk sector size' buf s)) = files s
   \<and> fs (snd (grub_vhd_write disk sector size' buf s)) = fs s
   \<and> vhd_list (snd (grub_vhd_write disk sector size' buf s)) = vhd_list s
   \<and> last_id (snd (grub_vhd_write disk sector size' buf s)) = last_id s
   \<and> io_log (snd (grub_vhd_write disk sector size' buf s)) = io_log s
   \<and> snd (grub_vhd_write disk sector size' buf s) = s\<lparr>grub_errno := GRUB_ERR_NOT_IMPLEMENTED_YET\<rparr>"
  by (simp add: grub_vhd_write_def grub_error_def)

text \<open>C7: from an empty registry, after adding \<open>a\<close>, \<open>b\<close> and \<open>c\<close> and deleting \<open>b\<close>,
  the registry holds \<open>c\<close> and \<open>a\<close>. \<^verbatim>\<open>grub_vhd_iterate\<close> with
  \<^verbatim>\<open>GRUB_DISK_PULL_NONE\<close> calls the hook on \<open>c\<close>; if that returns nonzero it returns 1,
  otherwise it calls the hook on \<open>a\<close> and returns 1 or 0 as that call returns nonzero or
  0; the hook is called on no other name and on no name twice. With any other pull mode
  the hook is not called and the result is 0.\<close>

theorem iterate_after_add_delete:
  assumes "vhd_list s = []"
    and "fs s pa = Some ba" and "fs s pb = Some bb" and "fs s pc = Some bc"
  shows "(let s' = run [Add ''a'' pa True True, Add ''b'' pb True True, Add ''c'' pc True True,
                        Delete ''b''] s in
          map devname (vhd_list s') = [''c'', ''a'']
          \<and> grub_vhd_iterate hook hook_data GRUB_DISK_PULL_NONE s' =
              (case hook ''c'' hook_data of
                 (r, data1) \<Rightarrow>
                   if r \<noteq> 0 then (1, data1)
                   else (case hook ''a'' data1 of
                           (r', data2) \<Rightarrow> if r' \<noteq> 0 then (1, data2) else (0, data2)))
          \<and> (pull \<noteq> GRUB_DISK_PULL_NONE \<longrightarrow>
               grub_vhd_iterate hook hook_data pull s' = (0, hook_data)))"
  using assms
  by (simp add: grub_cmd_vhd_def grub_file_open_def grub_malloc_def grub_strdup_def delete_vhd_def
      grub_file_close_def grub_vhd_iterate_def Let_def split: prod.splits)

text \<open>The witness runs a hook that appends each name it is given to the list in
  \<^verbatim>\<open>hook_data\<close> and returns 0.\<close>

theorem iterate_after_add_delete_witness:
  "vhd_list (initial three_files :: 32 word state) = []
   \<and> fs (initial three_files :: 32 word state) ''fa'' = Some [1]
   \<and> fs (initial three_files :: 32 word state) ''fb'' = Some [2]
   \<and> fs (initial three_files :: 32 word state) ''fc'' = Some [3]
   \<and> GRUB_DISK_PULL_REMOVABLE \<noteq> GRUB_DISK_PULL_NONE
   \<and> grub_vhd_iterate (\<lambda>name seen. (0, seen @ [name])) [] GRUB_DISK_PULL_NONE
        (run [Add ''a'' ''fa'' True True, Add ''b'' ''fb'' True True, Add ''c'' ''fc'' True True,
              Delete ''b''] (initial three_files :: 32 word state))
       = (0, [''c'', ''a''])
   \<and> grub_vhd_iterate (\<lambda>name seen. (0, seen @ [name])) [] GRUB_DISK_PULL_REMOVABLE
        (run [Add ''a'' ''fa'' True True, Add ''b'' ''fb'' True True, Add ''c'' ''fc'' True True,
              Delete ''b''] (initial three_files :: 32 word state))
       = (0, [])"
proof -
  let ?s = "initial three_files :: 32 word state"
  have h: "vhd_list ?s = []" "fs ?s ''fa'' = Some [1]" "fs ?s ''fb'' = Some [2]"
    "fs ?s ''fc'' = Some [3]"
    by (simp_all add: initial_def three_files_def)
  have p: "GRUB_DISK_PULL_REMOVABLE \<noteq> GRUB_DISK_PULL_NONE"
    by simp
  from iterate_after_add_delete [OF h, of "\<lambda>name seen. (0, seen @ [name])" "[]"
      GRUB_DISK_PULL_REMOVABLE]
  show ?thesis
    unfolding Let_def using h p by simp
qed

subsection \<open>Evaluating reads on the concrete images\<close>

lemma small_image_bytes:
  "length small_image = 3584"
  "take 4 (drop 544 small_image) = [0, 0, 4, 0]"
  "take 8 (drop 528 small_image) = [0, 0, 0, 0, 0, 0, 6, 0]"
  "take 4 (drop 1536 small_image) = [0, 0, 0, 4]"
  "take 4 (drop 1540 small_image) = [0xFF, 0xFF, 0xFF, 0xFF]"
  "take 512 (drop 3072 small_image) = replicate 512 0xBB"
  "take 512 (drop 512 small_image) = take 512 (header_bytes [0, 0, 0, 0, 0, 0, 6, 0] [0, 0, 4, 0])"
  by (simp_all add: small_image_def image_def header_bytes_def)

lemma device_on_fields:
  "vhd_list (device_on bytes) = [\<lparr>devname = ''a'', file_h = 0, id_no = 0\<rparr>]"
  "files (device_on bytes) 0 = Some \<lparr>contents = bytes, offset = 0\<rparr>"
  "grub_errno (device_on bytes) = GRUB_ERR_NONE"
  "io_log (device_on bytes) = []"
  "data disk_a = \<lparr>devname = ''a'', file_h = 0, id_no = 0\<rparr>"
  by (simp_all add: device_on_def disk_a_def)

lemmas read_eval =
  outcome_def grub_vhd_read_def grub_file_seek_def grub_file_read_def device_on_def disk_a_def
  image_def header_bytes_def as_vhddynheader_def bytes_at_def grub_swap_bytes32_def
  grub_swap_bytes64_def grub_divmod64_def GRUB_DISK_SECTOR_BITS_def Let_def

lemma load_le_zeros: "load_le (replicate n 0) = 0"
  by (induction n) simp_all

lemma short_image_read:
  "outcome (grub_vhd_read (disk_a :: 32 word grub_disk) 0 (1 :: 32 word) []
              (replicate 1024 0) (replicate 4 0) (device_on short_image :: 32 word state))
     = Inr (GRUB_ERR_NONE, take 512 (header_bytes [0, 0, 0, 0, 0, 0, 0, 0] [0, 0, 4, 0]),
            [Seek 0 512, Read 0 1024, Seek 0 0, Read 0 4, Seek 0 512, Read 0 512])"
  by (simp add: read_eval short_image_def load_le_zeros)

lemma short_image_length: "length short_image = 1535"
  by (simp add: short_image_def header_bytes_def)

lemma bad_image_bytes:
  "length bad_image = 3584"
  "take 4 (drop 544 bad_image) = [0, 0, 1, 0]"
  by (simp_all add: bad_image_def image_def header_bytes_def)

subsection \<open>Reading\<close>




text \<open>C4 (as amended): \<^verbatim>\<open>grub_vhd_read\<close> does not look at the outcome of the header
  read. On a file of at least 512 bytes the header buffer is the bytes that the file has
  from offset 512, at most 1024, followed by what the buffer held before, and no error is
  raised when they are fewer than 1024. On a shorter file the seek to 512 leaves
  \<^verbatim>\<open>GRUB_ERR_OUT_OF_RANGE\<close> in \<^verbatim>\<open>grub_errno\<close>. Either way the function goes on with
  the buffer: it stops at the division when the density decoded from it is 0, and
  otherwise looks the table entry up, makes the data transfer, and returns the
  \<^verbatim>\<open>grub_errno\<close> of the end, which is \<^verbatim>\<open>GRUB_ERR_OUT_OF_RANGE\<close> when the file was
  shorter than 512 bytes.\<close>

theorem header_read_is_not_checked:
  fixes size' :: "'s::len word"
  assumes "files s (file_h (data disk)) = Some f"
  shows "\<exists>hdr s2.
      seek_read (file_h (data disk)) 512 dynheader 1024 s = Some (hdr, s2)
      \<and> (512 \<le> length (contents f) \<longrightarrow>
           hdr = take 1024 (drop 512 (contents f))
                 @ drop (length (take 1024 (drop 512 (contents f)))) dynheader
           \<and> grub_errno s2 = grub_errno s)
      \<and> (length (contents f) < 512 \<longrightarrow> grub_errno s2 = GRUB_ERR_OUT_OF_RANGE)
      \<and> (density_of hdr = 0 \<longrightarrow>
           grub_vhd_read disk sector size' buf dynheader blocpos s = Inl Division_By_Zero)
      \<and> (density_of hdr \<noteq> 0 \<longrightarrow>
           (\<exists>entry buf' s'.
              grub_vhd_read disk sector size' buf dynheader blocpos s = Inr (grub_errno s', buf', s')
              \<and> io_log s' = io_log s @
                   [Seek (file_h (data disk)) 512, Read (file_h (data disk)) 1024,
                    Seek (file_h (data disk)) (bat_entry_at hdr sector), Read (file_h (data disk)) 4,
                    Seek (file_h (data disk)) (data_at hdr entry sector),
                    Read (file_h (data disk)) (byte_count size')]
              \<and> (length (contents f) < 512 \<longrightarrow> grub_errno s' = GRUB_ERR_OUT_OF_RANGE)))"
proof -
  let ?h = "file_h (data disk)"
  from read_steps [OF assms refl, of dynheader sector size' buf blocpos] obtain hdr s2 where
    1: "seek_read ?h 512 dynheader 1024 s = Some (hdr, s2)"
    and rest: "if density_of hdr = 0
         then grub_vhd_read disk sector size' buf dynheader blocpos s = Inl Division_By_Zero
         else (\<exists>entry s4 buf' s'.
              seek_read ?h (bat_entry_at hdr sector) blocpos 4 s2 = Some (entry, s4)
              \<and> seek_read ?h (data_at hdr entry sector) buf (byte_count size') s4 = Some (buf', s')
              \<and> grub_vhd_read disk sector size' buf dynheader blocpos s = Inr (grub_errno s', buf', s')
              \<and> io_log s' = io_log s @
                   [Seek ?h 512, Read ?h 1024,
                    Seek ?h (bat_entry_at hdr sector), Read ?h 4,
                    Seek ?h (data_at hdr entry sector), Read ?h (byte_count size')])"
    by blast
  note fr = seek_read_frame [OF 1 assms]
  from fr(1) obtain f2 where f2: "files s2 ?h = Some f2" by blast
  have long: "hdr = take 1024 (drop 512 (contents f))
                 @ drop (length (take 1024 (drop 512 (contents f)))) dynheader
           \<and> grub_errno s2 = grub_errno s"
    if "512 \<le> length (contents f)"
    using fr(9,10) that by simp
  have short: "grub_errno s2 = GRUB_ERR_OUT_OF_RANGE" if "length (contents f) < 512"
    using fr(8) that by simp
  have go: "\<exists>entry buf' s'.
              grub_vhd_read disk sector size' buf dynheader blocpos s = Inr (grub_errno s', buf', s')
              \<and> io_log s' = io_log s @
                   [Seek ?h 512, Read ?h 1024,
                    Seek ?h (bat_entry_at hdr sector), Read ?h 4,
                    Seek ?h (data_at hdr entry sector), Read ?h (byte_count size')]
              \<and> (length (contents f) < 512 \<longrightarrow> grub_errno s' = GRUB_ERR_OUT_OF_RANGE)"
    if "density_of hdr \<noteq> 0"
  proof -
    from rest that obtain entry s4 buf' s' where
      2: "seek_read ?h (bat_entry_at hdr sector) blocpos 4 s2 = Some (entry, s4)"
      and 3: "seek_read ?h (data_at hdr entry sector) buf (byte_count size') s4 = Some (buf', s')"
      and r: "grub_vhd_read disk sector size' buf dynheader blocpos s = Inr (grub_errno s', buf', s')"
      and l: "io_log s' = io_log s @
                   [Seek ?h 512, Read ?h 1024,
                    Seek ?h (bat_entry_at hdr sector), Read ?h 4,
                    Seek ?h (data_at hdr entry sector), Read ?h (byte_count size')]"
      by auto
    from seek_read_frame(1) [OF 2 f2] obtain f4 where f4: "files s4 ?h = Some f4" by blast
    have "grub_errno s' = GRUB_ERR_OUT_OF_RANGE" if "length (contents f) < 512"
      using seek_read_errno_kept [OF 3 f4] seek_read_errno_kept [OF 2 f2] short [OF that] by simp
    with r l show ?thesis by blast
  qed
  from 1 long short go rest show ?thesis
    by (intro exI [of _ hdr] exI [of _ s2]) simp
qed

theorem header_read_is_not_checked_witness:
  "files (device_on short_image :: 32 word state) (file_h (data (disk_a :: 32 word grub_disk)))
     = Some \<lparr>contents = short_image, offset = 0\<rparr>
   \<and> length short_image = 1535
   \<and> density_of (take 1024 (drop 512 short_image) @ drop 1023 (replicate 1024 0)) = 2
   \<and> \<not> isl (grub_vhd_read (disk_a :: 32 word grub_disk) 0 (1 :: 32 word) []
                 (replicate 1024 0) (replicate 4 0) (device_on short_image :: 32 word state))
   \<and> outcome (grub_vhd_read (disk_a :: 32 word grub_disk) 0 (1 :: 32 word) []
                 (replicate 1024 0) (replicate 4 0) (device_on short_image :: 32 word state))
       = Inr (GRUB_ERR_NONE, take 512 (header_bytes [0, 0, 0, 0, 0, 0, 0, 0] [0, 0, 4, 0]),
              [Seek 0 512, Read 0 1024, Seek 0 0, Read 0 4, Seek 0 512, Read 0 512])"
proof -
  let ?s = "device_on short_image :: 32 word state"
  let ?d = "disk_a :: 32 word grub_disk"
  let ?f = "\<lparr>contents = short_image, offset = 0\<rparr>"
  let ?hdr = "take 1024 (drop 512 short_image) @ drop 1023 (replicate 1024 0)"
  have h: "files ?s (file_h (data ?d)) = Some ?f"
    by (simp add: device_on_fields)
  have d: "density_of ?hdr = 2"
    by (simp add: density_of_def as_vhddynheader_def bytes_at_def short_image_def header_bytes_def
        grub_swap_bytes32_def)
  from header_read_is_not_checked [OF h, of "replicate 1024 0" 0 "1 :: 32 word" "[]" "replicate 4 0"]
  obtain hdr where
    long: "512 \<le> length (contents ?f) \<longrightarrow>
           hdr = take 1024 (drop 512 (contents ?f))
                 @ drop (length (take 1024 (drop 512 (contents ?f)))) (replicate 1024 0)"
    and go: "density_of hdr \<noteq> 0 \<longrightarrow>
           (\<exists>r. grub_vhd_read ?d 0 (1 :: 32 word) [] (replicate 1024 0) (replicate 4 0) ?s = Inr r)"
    by blast
  from long have "hdr = ?hdr"
    by (simp add: short_image_length)
  with go d have "\<not> isl (grub_vhd_read ?d 0 (1 :: 32 word) [] (replicate 1024 0) (replicate 4 0) ?s)"
    by auto
  with h d short_image_read show ?thesis
    by (simp add: short_image_length)
qed

text \<open>As the claim was stated it fails: \<open>short_image\<close> ends one byte before the end of
  its header, and the read of sector 0 returns 0 after the table lookup and the data
  transfer.\<close>

theorem short_header_counterexample:
  "length short_image < 512 + 1024
   \<and> outcome (grub_vhd_read (disk_a :: 32 word grub_disk) 0 (1 :: 32 word) []
                 (replicate 1024 0) (replicate 4 0) (device_on short_image :: 32 word state))
       = Inr (GRUB_ERR_NONE, take 512 (header_bytes [0, 0, 0, 0, 0, 0, 0, 0] [0, 0, 4, 0]),
              [Seek 0 512, Read 0 1024, Seek 0 0, Read 0 4, Seek 0 512, Read 0 512])"
  using short_image_read by (simp add: short_image_length)

text \<open>C9 (as amended): take a backing file, shorter than \<open>2 ^ 64\<close> bytes, that holds the
  whole header with a block size of at least 512, and a sector whose table entry lies
  inside the file and is \<open>0xFFFFFFFF\<close>. Adding 1 to the entry in 32 bits gives 0, so that
  the 64-bit sum is \<open>sectorInBlock\<close> alone: the read seeks to \<open>sectorInBlock * 512\<close>,
  which is below \<open>2 ^ 32\<close>, and asks for the data there; it neither stops nor treats the
  entry specially. When that offset lies within the file, the buffer receives the bytes
  that the file has from there on, and the error state is unchanged.\<close>

theorem sentinel_entry_wraps:
  fixes size' :: "'s::len word"
  assumes opn: "files s (file_h (data disk)) = Some f"
    and len: "length (contents f) < 2 ^ 64"
    and hdr: "1536 \<le> length (contents f)"
    and bs: "blockSize = big_endian (take 4 (drop 544 (contents f)))"
    and big: "512 \<le> blockSize"
    and bo: "batOffset = big_endian (take 8 (drop 528 (contents f)))"
    and bi: "blockIndex = unat sector div (blockSize div 512)"
    and sib: "sectorInBlock = unat sector mod (blockSize div 512)"
    and bat: "batOffset + blockIndex * 4 + 4 \<le> length (contents f)"
    and sentinel: "take 4 (drop (batOffset + blockIndex * 4) (contents f)) = [0xFF, 0xFF, 0xFF, 0xFF]"
  shows "grub_swap_bytes32 (load_le [0xFF, 0xFF, 0xFF, 0xFF]) = 0xFFFFFFFF
       \<and> (ucast (grub_swap_bytes32 (load_le [0xFF, 0xFF, 0xFF, 0xFF]) + 1) :: 64 word) = 0
       \<and> (\<exists>buf' s'.
            grub_vhd_read disk sector size' buf dynheader blocpos s = Inr (grub_errno s', buf', s')
            \<and> io_log s' = io_log s @
                 [Seek (file_h (data disk)) 512, Read (file_h (data disk)) 1024,
                  Seek (file_h (data disk)) (of_nat (batOffset + blockIndex * 4)),
                  Read (file_h (data disk)) 4,
                  Seek (file_h (data disk)) (of_nat (sectorInBlock * 512)),
                  Read (file_h (data disk)) (byte_count size')]
            \<and> sectorInBlock * 512 < 2 ^ 32
            \<and> (sectorInBlock * 512 \<le> length (contents f) \<longrightarrow>
                 grub_errno s' = grub_errno s
                 \<and> buf' = take (byte_count size') (drop (sectorInBlock * 512) (contents f))
                          @ drop (length (take (byte_count size')
                                           (drop (sectorInBlock * 512) (contents f)))) buf))"
proof -
  let ?h = "file_h (data disk)"
  let ?cs = "contents f"
  define P where "P = sectorInBlock * 512"
  have w: "grub_swap_bytes32 (load_le [0xFF, 0xFF, 0xFF, 0xFF]) = 0xFFFFFFFF"
    by (simp add: grub_swap_bytes32_def)
  have z: "(ucast (grub_swap_bytes32 (load_le [0xFF, 0xFF, 0xFF, 0xFF]) + 1) :: 64 word) = 0"
    unfolding w by simp
  have s23: "sectorInBlock < 2 ^ 23"
    unfolding sib using bs _ big by (rule sector_in_block_less) (use hdr in simp)
  then have Pb: "P < 2 ^ 32"
    unfolding P_def by simp
  then have Pb64: "P < 2 ^ 64"
    by simp
  have pos: "(of_nat P :: 64 word)
      = push_bit 9 (ucast (grub_swap_bytes32 (load_le [0xFF, 0xFF, 0xFF, 0xFF]) + 1)
                    + of_nat sectorInBlock)"
    unfolding z P_def by (simp add: push_bit_eq_mult)
  from read_of_image [OF opn refl len hdr bs big bo bi sib bat sentinel [symmetric] pos,
      where size' = size' and buf = buf and dynheader = dynheader and blocpos = blocpos]
  obtain buf' s' s4 f4 where
    3: "seek_read ?h (of_nat P) buf (byte_count size') s4 = Some (buf', s')"
    and f4: "files s4 ?h = Some f4" "contents f4 = ?cs" and e4: "grub_errno s4 = grub_errno s"
    and r: "grub_vhd_read disk sector size' buf dynheader blocpos s = Inr (grub_errno s', buf', s')"
    and l: "io_log s' = io_log s @
           [Seek ?h 512, Read ?h 1024, Seek ?h (of_nat (batOffset + blockIndex * 4)), Read ?h 4,
            Seek ?h (of_nat P), Read ?h (byte_count size')]"
    by auto
  note dt = data_transfer(1) [OF 3 f4 Pb64, unfolded e4]
  from r l Pb dt have "\<exists>buf' s'.
            grub_vhd_read disk sector size' buf dynheader blocpos s = Inr (grub_errno s', buf', s')
            \<and> io_log s' = io_log s @
                 [Seek ?h 512, Read ?h 1024, Seek ?h (of_nat (batOffset + blockIndex * 4)),
                  Read ?h 4, Seek ?h (of_nat P), Read ?h (byte_count size')]
            \<and> P < 2 ^ 32
            \<and> (P \<le> length ?cs \<longrightarrow>
                 grub_errno s' = grub_errno s
                 \<and> buf' = take (byte_count size') (drop P ?cs)
                          @ drop (length (take (byte_count size') (drop P ?cs))) buf)"
    by blast
  with w z show ?thesis
    unfolding P_def by blast
qed

theorem sentinel_entry_wraps_witness:
  "files (device_on small_image :: 32 word state) (file_h (data (disk_a :: 32 word grub_disk)))
     = Some \<lparr>contents = small_image, offset = 0\<rparr>
   \<and> big_endian (take 4 (drop 544 small_image)) = 1024
   \<and> big_endian (take 8 (drop 528 small_image)) = 1536
   \<and> unat (3 :: 64 word) div (1024 div 512) = 1
   \<and> unat (3 :: 64 word) mod (1024 div 512) = 1
   \<and> take 4 (drop (1536 + 1 * 4) small_image) = [0xFF, 0xFF, 0xFF, 0xFF]
   \<and> outcome (grub_vhd_read (disk_a :: 32 word grub_disk) 3 (1 :: 32 word) [] [] []
                 (device_on small_image :: 32 word state))
       = Inr (GRUB_ERR_NONE, take 512 (drop (1 * 512) small_image),
              [Seek 0 512, Read 0 1024, Seek 0 1540, Read 0 4, Seek 0 (1 * 512), Read 0 512])"
proof -
  let ?s = "device_on small_image :: 32 word state"
  let ?d = "disk_a :: 32 word grub_disk"
  let ?f = "\<lparr>contents = small_image, offset = 0\<rparr>"
  have h1: "files ?s (file_h (data ?d)) = Some ?f"
    by (simp add: device_on_fields)
  have h2: "length (contents ?f) < 2 ^ 64" and h3: "1536 \<le> length (contents ?f)"
    by (simp_all add: small_image_bytes)
  have h4: "1024 = big_endian (take 4 (drop 544 (contents ?f)))"
    by (simp add: small_image_bytes)
  have h5: "(512::nat) \<le> 1024"
    by simp
  have h6: "1536 = big_endian (take 8 (drop 528 (contents ?f)))"
    by (simp add: small_image_bytes)
  have h7: "1 = unat (3 :: 64 word) div (1024 div 512)"
    and h8: "1 = unat (3 :: 64 word) mod (1024 div 512)"
    by simp_all
  have h9: "1536 + 1 * 4 + 4 \<le> length (contents ?f)"
    by (simp add: small_image_bytes)
  have h10: "take 4 (drop (1536 + 1 * 4) (contents ?f)) = [0xFF, 0xFF, 0xFF, 0xFF]"
    by (simp add: small_image_bytes)
  from sentinel_entry_wraps [OF h1 h2 h3 h4 h5 h6 h7 h8 h9 h10,
      where size' = "1 :: 32 word" and buf = "[]" and dynheader = "[]" and blocpos = "[]"]
  obtain buf' s' where
    r: "grub_vhd_read ?d 3 (1 :: 32 word) [] [] [] ?s = Inr (grub_errno s', buf', s')"
    and l: "io_log s' = io_log ?s @
                 [Seek (file_h (data ?d)) 512, Read (file_h (data ?d)) 1024,
                  Seek (file_h (data ?d)) (of_nat (1536 + 1 * 4)), Read (file_h (data ?d)) 4,
                  Seek (file_h (data ?d)) (of_nat (1 * 512)),
                  Read (file_h (data ?d)) (byte_count (1 :: 32 word))]"
    and b: "1 * 512 \<le> length (contents ?f) \<longrightarrow>
                 grub_errno s' = grub_errno ?s
                 \<and> buf' = take (byte_count (1 :: 32 word)) (drop (1 * 512) (contents ?f))
                          @ drop (length (take (byte_count (1 :: 32 word))
                                           (drop (1 * 512) (contents ?f)))) []"
    by blast
  have c: "byte_count (1 :: 32 word) = 512"
    by (simp add: byte_count_def)
  from b have "grub_errno s' = GRUB_ERR_NONE" "buf' = take 512 (drop (1 * 512) small_image)"
    by (simp_all add: small_image_bytes device_on_fields c)
  with r l have "outcome (grub_vhd_read ?d 3 (1 :: 32 word) [] [] [] ?s)
      = Inr (GRUB_ERR_NONE, take 512 (drop (1 * 512) small_image),
             [Seek 0 512, Read 0 1024, Seek 0 1540, Read 0 4, Seek 0 (1 * 512), Read 0 512])"
    by (simp add: outcome_def device_on_fields c)
  with h1 show ?thesis
    by (simp add: small_image_bytes)
qed

text \<open>As the claim was stated, for every read of a block whose entry is \<open>0xFFFFFFFF\<close>, it
  fails when \<open>sectorInBlock * 512\<close> lies beyond the end of the file: with a block size of
  8192 the sector 15 of \<open>far_image\<close> gives the offset 7680 in a file of 3584 bytes; the
  seek fails, the 512 bytes come from offset 1540, where the read of the entry left the
  cursor, and the result is \<^verbatim>\<open>GRUB_ERR_OUT_OF_RANGE\<close>.\<close>

theorem sentinel_beyond_file_counterexample:
  "length far_image = 3584
   \<and> big_endian (take 4 (drop 544 far_image)) = 8192
   \<and> big_endian (take 8 (drop 528 far_image)) = 1536
   \<and> take 4 (drop (1536 + (15 div (8192 div 512)) * 4) far_image) = [0xFF, 0xFF, 0xFF, 0xFF]
   \<and> (15 mod (8192 div 512)) * 512 = (7680 :: nat)
   \<and> outcome (grub_vhd_read (disk_a :: 32 word grub_disk) 15 (1 :: 32 word) [] [] []
                 (device_on far_image :: 32 word state))
       = Inr (GRUB_ERR_OUT_OF_RANGE, take 512 (drop 1540 far_image),
              [Seek 0 512, Read 0 1024, Seek 0 1536, Read 0 4, Seek 0 7680, Read 0 512])"
  by (simp add: read_eval far_image_def)

text \<open>C10: the divisor that \<^verbatim>\<open>grub_vhd_read\<close> passes to \<^verbatim>\<open>grub_divmod64\<close> is 0
  exactly when the block size decoded from the header buffer is below 512. A block size
  of at least 512, and so every nonzero multiple of 512, gives the quotient and remainder
  by \<open>blockSize div 512\<close> and the function returns; below 512 nothing guards the
  division and the function stops at it.\<close>

theorem division_by_density:
  fixes size' :: "'s::len word"
  assumes "files s (file_h (data disk)) = Some f"
    and "seek_read (file_h (data disk)) 512 dynheader 1024 s = Some (hdr, s2)"
    and "blockSize = unat (grub_swap_bytes32 (blocsize (as_vhddynheader hdr)))"
  shows "((ucast (drop_bit 9 (grub_swap_bytes32 (blocsize (as_vhddynheader hdr)))) :: 64 word) = 0
          \<longleftrightarrow> blockSize < 512)
       \<and> (512 dvd blockSize \<and> blockSize \<noteq> 0 \<longrightarrow> 512 \<le> blockSize)
       \<and> (512 \<le> blockSize \<longrightarrow>
            grub_divmod64 sector
              (ucast (drop_bit 9 (grub_swap_bytes32 (blocsize (as_vhddynheader hdr)))))
              = Some (of_nat (unat sector div (blockSize div 512)),
                      of_nat (unat sector mod (blockSize div 512)))
            \<and> (\<exists>r. grub_vhd_read disk sector size' buf dynheader blocpos s = Inr r))
       \<and> (blockSize < 512 \<longrightarrow>
            grub_divmod64 sector
              (ucast (drop_bit 9 (grub_swap_bytes32 (blocsize (as_vhddynheader hdr))))) = None
            \<and> grub_vhd_read disk sector size' buf dynheader blocpos s = Inl Division_By_Zero)
       \<and> (1536 \<le> length (contents f) \<longrightarrow>
            blockSize = big_endian (take 4 (drop 544 (contents f))))"
proof -
  let ?h = "file_h (data disk)"
  let ?x = "grub_swap_bytes32 (blocsize (as_vhddynheader hdr))"
  have d: "density_of hdr = blockSize div 512"
    by (simp add: density_of_def assms(3))
  from read_steps [OF assms(1) refl, of dynheader sector size' buf blocpos] assms(2)
  have steps: "if density_of hdr = 0
         then grub_vhd_read disk sector size' buf dynheader blocpos s = Inl Division_By_Zero
         else (\<exists>r. grub_vhd_read disk sector size' buf dynheader blocpos s = Inr r)"
    by (auto split: if_splits)
  have zero: "(ucast (drop_bit 9 ?x) :: 64 word) = 0 \<longleftrightarrow> blockSize < 512"
    unfolding assms(3) by (rule density_zero)
  have dvd: "512 \<le> blockSize" if "512 dvd blockSize" "blockSize \<noteq> 0"
    using that by auto
  have big: "grub_divmod64 sector (ucast (drop_bit 9 ?x))
        = Some (of_nat (unat sector div (blockSize div 512)),
                of_nat (unat sector mod (blockSize div 512)))
      \<and> (\<exists>r. grub_vhd_read disk sector size' buf dynheader blocpos s = Inr r)"
    if "512 \<le> blockSize"
  proof -
    from that have nz: "blockSize div 512 \<noteq> 0"
      by (simp add: div_eq_0_iff)
    with steps d have "\<exists>r. grub_vhd_read disk sector size' buf dynheader blocpos s = Inr r"
      by simp
    moreover from nz have "grub_divmod64 sector (ucast (drop_bit 9 ?x))
        = Some (of_nat (unat sector div (blockSize div 512)),
                of_nat (unat sector mod (blockSize div 512)))"
      unfolding assms(3) by (rule divmod_nat)
    ultimately show ?thesis by simp
  qed
  have small: "grub_divmod64 sector (ucast (drop_bit 9 ?x)) = None
      \<and> grub_vhd_read disk sector size' buf dynheader blocpos s = Inl Division_By_Zero"
    if "blockSize < 512"
  proof -
    from that have z: "blockSize div 512 = 0"
      by simp
    with steps d have "grub_vhd_read disk sector size' buf dynheader blocpos s = Inl Division_By_Zero"
      by simp
    moreover from z have "grub_divmod64 sector (ucast (drop_bit 9 ?x)) = None"
      unfolding assms(3) by (rule divmod_zero)
    ultimately show ?thesis by simp
  qed
  have fl: "blockSize = big_endian (take 4 (drop 544 (contents f)))"
    if "1536 \<le> length (contents f)"
    unfolding assms(3) header_of_file [OF assms(2,1) that]
    using that by (rule blocsize_of_file)
  from zero dvd big small fl show ?thesis
    by blast
qed

theorem division_by_density_witness:
  "files (device_on bad_image :: 32 word state) (file_h (data (disk_a :: 32 word grub_disk)))
     = Some \<lparr>contents = bad_image, offset = 0\<rparr>
   \<and> big_endian (take 4 (drop 544 bad_image)) = 256
   \<and> grub_vhd_read (disk_a :: 32 word grub_disk) 7 (1 :: 32 word) [] [] []
        (device_on bad_image :: 32 word state) = Inl Division_By_Zero
   \<and> big_endian (take 4 (drop 544 small_image)) = 1024
   \<and> \<not> isl (grub_vhd_read (disk_a :: 32 word grub_disk) 7 (1 :: 32 word) [] [] []
                 (device_on small_image :: 32 word state))"
proof -
  let ?d = "disk_a :: 32 word grub_disk"
  have zero: "big_endian (take 4 (drop 544 bad_image)) = 256
      \<and> grub_vhd_read ?d 7 (1 :: 32 word) [] [] [] (device_on bad_image :: 32 word state)
          = Inl Division_By_Zero"
  proof -
    let ?s = "device_on bad_image :: 32 word state"
    let ?f = "\<lparr>contents = bad_image, offset = 0\<rparr>"
    have h: "files ?s (file_h (data ?d)) = Some ?f"
      by (simp add: device_on_fields)
    from seek_read_total [OF h] obtain hdr s2 where
      sr: "seek_read (file_h (data ?d)) 512 [] 1024 ?s = Some (hdr, s2)"
      by blast
    note t = division_by_density [OF h sr refl, of 7 "1 :: 32 word" "[]" "[]"]
    from t have b: "unat (grub_swap_bytes32 (blocsize (as_vhddynheader hdr)))
        = big_endian (take 4 (drop 544 bad_image))"
      by (simp add: bad_image_bytes)
    then have "unat (grub_swap_bytes32 (blocsize (as_vhddynheader hdr))) = 256"
      by (simp add: bad_image_bytes)
    with t b show ?thesis
      by simp
  qed
  have nonzero: "big_endian (take 4 (drop 544 small_image)) = 1024
      \<and> \<not> isl (grub_vhd_read ?d 7 (1 :: 32 word) [] [] [] (device_on small_image :: 32 word state))"
  proof -
    let ?s = "device_on small_image :: 32 word state"
    let ?f = "\<lparr>contents = small_image, offset = 0\<rparr>"
    have h: "files ?s (file_h (data ?d)) = Some ?f"
      by (simp add: device_on_fields)
    from seek_read_total [OF h] obtain hdr s2 where
      sr: "seek_read (file_h (data ?d)) 512 [] 1024 ?s = Some (hdr, s2)"
      by blast
    note t = division_by_density [OF h sr refl, of 7 "1 :: 32 word" "[]" "[]"]
    from t have b: "unat (grub_swap_bytes32 (blocsize (as_vhddynheader hdr)))
        = big_endian (take 4 (drop 544 small_image))"
      by (simp add: small_image_bytes)
    then have "unat (grub_swap_bytes32 (blocsize (as_vhddynheader hdr))) = 1024"
      by (simp add: small_image_bytes)
    with t b show ?thesis
      by auto
  qed
  from zero nonzero show ?thesis
    by (simp add: device_on_fields)
qed

end
